theory Spec2Isabelle
  imports Main
begin

section \<open>Text\<close>

text \<open>
  A Python \<open>str\<close> is a sequence of Unicode code points, so the model uses lists of
  natural numbers (the triggers and responses contain Devanagari, which does not fit the
  8-bit \<open>char\<close>).  ASCII literals of the source are written with \<open>ascii\<close>;
  the other literals are written as the code points of the source text.  A code point
  of a Python string is at most \<open>0x10FFFF\<close> and may be a lone surrogate; nothing
  below depends on the upper bound.
\<close>

type_synonym ustring = "nat list"

definition ascii :: "string \<Rightarrow> ustring" where
  "ascii cs = map of_char cs"

text \<open>
  The parts of the Python runtime that depend on the Unicode character database are
  parameters of the model: \<open>unicode_lower\<close> is \<open>str.lower\<close> on a string that is not
  pure ASCII and \<open>unicode_isalnum\<close> is \<open>str.isalnum\<close> on a code point above 127.
  On ASCII both are written out, as CPython does (its \<open>str.lower\<close> takes a separate
  path for a pure ASCII string).
\<close>

record py_runtime =
  unicode_lower :: "ustring \<Rightarrow> ustring"
  unicode_isalnum :: "nat \<Rightarrow> bool"

definition is_ascii :: "ustring \<Rightarrow> bool" where
  "is_ascii s = list_all (\<lambda>c. c < 128) s"

definition ascii_lower :: "nat \<Rightarrow> nat" where
  "ascii_lower c = (if 65 \<le> c \<and> c \<le> 90 then c + 32 else c)"

definition str_lower :: "py_runtime \<Rightarrow> ustring \<Rightarrow> ustring" where
  "str_lower U s = (if is_ascii s then map ascii_lower s else unicode_lower U s)"

definition isalnum :: "py_runtime \<Rightarrow> nat \<Rightarrow> bool" where
  "isalnum U c =
     (if c < 128 then (48 \<le> c \<and> c \<le> 57) \<or> (65 \<le> c \<and> c \<le> 90) \<or> (97 \<le> c \<and> c \<le> 122)
      else unicode_isalnum U c)"

text \<open>Python's \<open>sub in s\<close> on strings: \<open>sub\<close> occurs in \<open>s\<close> as a contiguous run.\<close>

fun is_prefix :: "ustring \<Rightarrow> ustring \<Rightarrow> bool" where
  "is_prefix [] s = True"
| "is_prefix (t # ts) [] = False"
| "is_prefix (t # ts) (x # xs) = (t = x \<and> is_prefix ts xs)"

fun str_in :: "ustring \<Rightarrow> ustring \<Rightarrow> bool" where
  "str_in sub [] = (sub = [])"
| "str_in sub (c # cs) = (is_prefix sub (c # cs) \<or> str_in sub cs)"

section \<open>Regular expressions\<close>

text \<open>
  The fragment of Python's \<open>re\<close> that the two patterns of the source use: literal
  text, alternation, sequencing, the assertion \<open>\b\<close> and \<open>.*\<close>.  Groups only
  capture, and the source uses the match object as a truth value, so they are not
  represented.

  A position in the subject string is a cursor: the character before it (\<open>None\<close> at
  the start) and the text after it.  \<open>ends U r c\<close> lists the cursors where a match of
  \<open>r\<close> that starts at \<open>c\<close> can end, in the order a backtracking matcher tries them;
  \<open>re_search\<close> tries every start position from left to right.
\<close>

datatype regex =
    Lit ustring
  | Boundary
  | DotStar
  | Alt regex regex
  | Seq regex regex

type_synonym cursor = "nat option \<times> ustring"

text \<open>\<open>\w\<close> for a \<open>str\<close> pattern: alphanumeric or the underscore.\<close>

definition is_word :: "py_runtime \<Rightarrow> nat \<Rightarrow> bool" where
  "is_word U c = (isalnum U c \<or> c = 95)"

text \<open>\<open>\b\<close>: the characters on the two sides of the position differ in being word
  characters; outside the string counts as not a word character.\<close>

fun at_boundary :: "py_runtime \<Rightarrow> cursor \<Rightarrow> bool" where
  "at_boundary U (prev, rest) =
     (let thatp = (case prev of None \<Rightarrow> False | Some x \<Rightarrow> is_word U x);
          thisp = (case rest of [] \<Rightarrow> False | x # _ \<Rightarrow> is_word U x)
      in thisp \<noteq> thatp)"

text \<open>Literal text: every character must be next in the subject.\<close>

fun advance :: "cursor \<Rightarrow> ustring \<Rightarrow> cursor option" where
  "advance c [] = Some c"
| "advance (prev, []) (t # ts) = None"
| "advance (prev, x # xs) (t # ts) = (if x = t then advance (Some x, xs) ts else None)"

text \<open>\<open>.*\<close>: \<open>.\<close> matches every character except the newline (no \<open>DOTALL\<close> flag is
  given); the star is greedy, so the longest run comes first.\<close>

fun dot_star :: "cursor \<Rightarrow> cursor list" where
  "dot_star (prev, []) = [(prev, [])]"
| "dot_star (prev, x # xs) =
     (if x \<noteq> 10 then dot_star (Some x, xs) @ [(prev, x # xs)] else [(prev, x # xs)])"

fun ends :: "py_runtime \<Rightarrow> regex \<Rightarrow> cursor \<Rightarrow> cursor list" where
  "ends U (Lit t) c = (case advance c t of None \<Rightarrow> [] | Some c' \<Rightarrow> [c'])"
| "ends U Boundary c = (if at_boundary U c then [c] else [])"
| "ends U DotStar c = dot_star c"
| "ends U (Alt a b) c = ends U a c @ ends U b c"
| "ends U (Seq a b) c = concat (map (ends U b) (ends U a c))"

fun search_from :: "py_runtime \<Rightarrow> regex \<Rightarrow> cursor \<Rightarrow> bool" where
  "search_from U r (prev, []) = (ends U r (prev, []) \<noteq> [])"
| "search_from U r (prev, x # xs) =
     (ends U r (prev, x # xs) \<noteq> [] \<or> search_from U r (Some x, xs))"

definition re_search :: "py_runtime \<Rightarrow> regex \<Rightarrow> ustring \<Rightarrow> bool" where
  "re_search U r s = search_from U r (None, s)"

text \<open>\<^verbatim>\<open>r'\b(work|do)\b.*\b(you)\b'\<close>\<close>

definition work_do_you :: regex where
  "work_do_you =
     Seq Boundary (Seq (Alt (Lit (ascii ''work'')) (Lit (ascii ''do'')))
       (Seq Boundary (Seq DotStar (Seq Boundary (Seq (Lit (ascii ''you'')) Boundary)))))"

section \<open>Dates\<close>

text \<open>
  \<open>datetime.date\<close>: a year from 1 to 9999, a month from 1 to 12 and a day of that
  month.  \<open>strftime('%B %d, %Y')\<close> in the C locale (the program sets none): the English
  month name, the day on two digits, the year in decimal.
\<close>

record date =
  year :: nat
  month :: nat
  day :: nat

definition valid_date :: "date \<Rightarrow> bool" where
  "valid_date d = (1000 \<le> year d \<and> year d \<le> 9999 \<and> 1 \<le> month d \<and> month d \<le> 12 \<and>
                   1 \<le> day d \<and> day d \<le> 31)"

definition month_names :: "ustring list" where
  "month_names =
     [ascii ''January'', ascii ''February'', ascii ''March'', ascii ''April'',
      ascii ''May'', ascii ''June'', ascii ''July'', ascii ''August'',
      ascii ''September'', ascii ''October'', ascii ''November'', ascii ''December'']"

definition month_name :: "nat \<Rightarrow> ustring" where
  "month_name m = (if 1 \<le> m \<and> m \<le> 12 then month_names ! (m - 1) else [])"

fun decimal :: "nat \<Rightarrow> ustring" where
  "decimal n = (if n < 10 then [48 + n] else decimal (n div 10) @ [48 + n mod 10])"

definition two_digits :: "nat \<Rightarrow> ustring" where
  "two_digits n = (if n < 10 then 48 # decimal n else decimal n)"

definition strftime_B_d_Y :: "date \<Rightarrow> ustring" where
  "strftime_B_d_Y d =
     month_name (month d) @ ascii '' '' @ two_digits (day d) @ ascii '', '' @ decimal (year d)"

section \<open>The responses\<close>

definition greeting_keywords :: "ustring list" where
  "greeting_keywords =
     [ascii ''hello'',
      ascii ''hi'',
      [2344, 2350, 2360, 2381, 2325, 2366, 2352],
      [2325, 2360, 2366, 32, 2310, 2361, 2375, 2360]]"

definition greeting_response :: ustring where
  "greeting_response =
     ascii ''Hello there! How can I assist you today? ('' @
     [2344, 2350, 2360, 2381, 2325, 2366, 2352, 33, 32, 2350, 2368, 32, 2340, 2369, 2350,
      2381, 2361, 2366, 2354, 2366, 32, 2325, 2358, 2368, 32, 2350, 2342, 2340, 32, 2325,
      2352, 2370, 32, 2358, 2325, 2340, 2379, 63, 41]"

definition how_are_you_keywords :: "ustring list" where
  "how_are_you_keywords =
     [ascii ''how are you'',
      [2325, 2360, 2366, 32, 2310, 2361, 2375, 2360]]"

definition how_are_you_response :: ustring where
  "how_are_you_response =
     ascii ''I'm a bot, so I'm doing great! Thanks for asking. ('' @
     [2350, 2368, 32, 2336, 2368, 2325, 32, 2310, 2361, 2375, 44, 32, 2357, 2367, 2330,
      2366, 2352, 2354, 2381, 2351, 2366, 2348, 2342, 2381, 2342, 2354, 32, 2343, 2344,
      2381, 2351, 2357, 2366, 2342, 33, 41]"

definition help_keywords :: "ustring list" where
  "help_keywords =
     [ascii ''help'',
      [2350, 2342, 2340]]"

definition help_response :: ustring where
  "help_response =
     ascii ''I can help with basic inquiries. Try asking about my purpose or capabilities. ('' @
     [2350, 2368, 32, 2340, 2369, 2350, 2381, 2361, 2366, 2354, 2366, 32, 2325, 2366,
      2361, 2368, 32, 2350, 2370, 2354, 2349, 2370, 2340, 32, 2346, 2381, 2352, 2358,
      2381, 2344, 2366, 2306, 2330, 2368, 32, 2313, 2340, 2381, 2340, 2352, 2375, 32,
      2342, 2375, 2314, 32, 2358, 2325, 2340, 2379, 46, 32, 2350, 2366, 2333, 2381, 2351,
      2366, 32, 2313, 2342, 2381, 2342, 2375, 2358, 32, 2325, 2367, 2306, 2357, 2366, 32,
      2325, 2381, 2359, 2350, 2340, 2375, 2348, 2342, 2381, 2342, 2354, 32, 2357, 2367,
      2330, 2366, 2352, 2370, 2344, 32, 2346, 2361, 2366, 46, 41]"

definition purpose_keywords :: "ustring list" where
  "purpose_keywords =
     [ascii ''purpose'',
      ascii ''capabilities'',
      ascii ''work'',
      [2313, 2342, 2381, 2342, 2375, 2358],
      [2325, 2381, 2359, 2350, 2340, 2366]]"

definition purpose_response :: ustring where
  "purpose_response =
     ascii ''I am a simple chatbot designed to demonstrate a basic web application with a Flask backend and SQLite logging. ('' @
     [2350, 2368, 32, 2319, 2325, 32, 2360, 2366, 2343, 2366, 32, 2330, 2373, 2335, 2348,
      2377, 2335, 32, 2310, 2361, 2375, 32, 2332, 2379, 32, 2347, 2381, 2354, 2366, 2360,
      2381, 2325, 32, 2348, 2373, 2325, 2319, 2306, 2337, 32, 2310, 2339, 2367, 32, 83,
      81, 76, 105, 116, 101, 32, 2354, 2377, 2327, 2367, 2306, 2327, 2360, 2361, 32, 2319,
      2325, 32, 2357, 2375, 2348, 32, 2418, 2346, 2381, 2354, 2367, 2325, 2375, 2358,
      2344, 32, 2342, 2352, 2381, 2358, 2357, 2367, 2339, 2381, 2351, 2366, 2360, 2366,
      2336, 2368, 32, 2337, 2367, 2333, 2366, 2311, 2344, 32, 2325, 2375, 2354, 2366, 32,
      2310, 2361, 2375, 46, 41]"

definition goodbye_keywords :: "ustring list" where
  "goodbye_keywords =
     [ascii ''goodbye'',
      ascii ''bye'',
      [2346, 2369, 2344, 2381, 2361, 2366, 32, 2349, 2375, 2335, 2370]]"

definition goodbye_response :: ustring where
  "goodbye_response =
     ascii ''Goodbye! Feel free to return if you have more questions. ('' @
     [2346, 2369, 2344, 2381, 2361, 2366, 32, 2349, 2375, 2335, 2370, 33, 32, 2340, 2369,
      2350, 2381, 2361, 2366, 2354, 2366, 32, 2310, 2339, 2326, 2368, 32, 2325, 2366,
      2361, 2368, 32, 2346, 2381, 2352, 2358, 2381, 2344, 32, 2309, 2360, 2354, 2381,
      2351, 2366, 2360, 44, 32, 2344, 2325, 2381, 2325, 2368, 32, 2346, 2352, 2340, 32,
      2351, 2366, 46, 41]"

definition name_keywords :: "ustring list" where
  "name_keywords =
     [ascii ''name'',
      ascii ''what's your name'',
      ascii ''what is your name'',
      [2344, 2366, 2357],
      [2340, 2369, 2350, 2330, 2306, 32, 2344, 2366, 2357, 32, 2325, 2366, 2351, 32, 2310,
       2361, 2375]]"

definition name_response :: ustring where
  "name_response =
     ascii ''I don't have a name, but you can call me Chatbot. ('' @
     [2350, 2366, 2333, 2375, 32, 2325, 2366, 2361, 2368, 32, 2344, 2366, 2357, 32, 2344,
      2366, 2361, 2368, 44, 32, 2346, 2339, 32, 2340, 2369, 2350, 2381, 2361, 2368, 32,
      2350, 2354, 2366, 32, 2330, 2373, 2335, 2348, 2377, 2335, 32, 2350, 2381, 2361,
      2339, 2370, 32, 2358, 2325, 2340, 2366, 46, 41]"

definition date_keywords :: "ustring list" where
  "date_keywords =
     [ascii ''date'',
      ascii ''today's date'',
      [2310, 2332, 2330, 2368, 32, 2340, 2366, 2352, 2368, 2326],
      [2340, 2366, 2352, 2368, 2326]]"

definition date_response :: "date \<Rightarrow> date \<Rightarrow> ustring" where
  "date_response d1 d2 =
     ascii ''Today's date is: '' @ strftime_B_d_Y d1 @
     [46, 32, 40, 2310, 2332, 2330, 2368, 32, 2340, 2366, 2352, 2368, 2326, 32, 2310,
      2361, 2375, 58, 32] @ strftime_B_d_Y d2 @ ascii '')''"

definition regex_response :: ustring where
  "regex_response =
     ascii ''I am a simple chatbot designed to demonstrate a basic web application with a Flask backend and SQLite logging. ('' @
     [2350, 2368, 32, 2319, 2325, 32, 2360, 2366, 2343, 2366, 32, 2330, 2373, 2335, 2348,
      2377, 2335, 32, 2310, 2361, 2375, 32, 2332, 2379, 32, 2347, 2381, 2354, 2366, 2360,
      2381, 2325, 32, 2348, 2373, 2325, 2319, 2306, 2337, 32, 2310, 2339, 2367, 32, 83,
      81, 76, 105, 116, 101, 32, 2354, 2377, 2327, 2367, 2306, 2327, 2360, 2361, 32, 2319,
      2325, 32, 2357, 2375, 2348, 32, 2418, 2346, 2381, 2354, 2367, 2325, 2375, 2358,
      2344, 32, 2342, 2352, 2381, 2358, 2357, 2367, 2339, 2381, 2351, 2366, 2360, 2366,
      2336, 2368, 32, 2337, 2367, 2333, 2366, 2311, 2344, 32, 2325, 2375, 2354, 2366, 32,
      2310, 2361, 2375, 46, 41]"

definition default_response :: ustring where
  "default_response =
     ascii ''I'm sorry, I don't understand that. Can you please rephrase? ('' @
     [2350, 2366, 2347, 32, 2325, 2352, 2366, 44, 32, 2350, 2354, 2366, 32, 2360, 2350,
      2332, 2354, 2375, 32, 2344, 2366, 2361, 2368, 46, 32, 2325, 2371, 2346, 2351, 2366,
      32, 2346, 2369, 2344, 2381, 2361, 2366, 32, 2360, 2366, 2306, 2327, 2366, 46, 41]"

definition kay_kam_karto :: ustring where
  "kay_kam_karto =
     [2325, 2366, 2351, 32, 2325, 2366, 2350, 32, 2325, 2352, 2340, 2379]"

text \<open>
  The dictionary \<open>RESPONSES\<close>: seven entries with distinct keys, iterated in insertion
  order, so an association list.  It is built on every call; the f-string of the last
  entry reads \<open>datetime.date.today()\<close> twice, \<open>d1\<close> and \<open>d2\<close> are the two readings.
\<close>

definition RESPONSES :: "date \<Rightarrow> date \<Rightarrow> (ustring list \<times> ustring) list" where
  "RESPONSES d1 d2 =
     [(greeting_keywords, greeting_response),
      (how_are_you_keywords, how_are_you_response),
      (help_keywords, help_response),
      (purpose_keywords, purpose_response),
      (goodbye_keywords, goodbye_response),
      (name_keywords, name_response),
      (date_keywords, date_response d1 d2)]"

section \<open>get_bot_response\<close>

text \<open>\<open>any(keyword in user_message for keyword in keywords)\<close>, and the loop over
  \<open>RESPONSES.items()\<close>: the first entry one of whose keywords occurs in the message
  returns its response; \<open>None\<close> when the loop ends.\<close>

definition any_keyword_in :: "ustring list \<Rightarrow> ustring \<Rightarrow> bool" where
  "any_keyword_in keywords msg = list_ex (\<lambda>keyword. str_in keyword msg) keywords"

fun scan_responses :: "(ustring list \<times> ustring) list \<Rightarrow> ustring \<Rightarrow> ustring option" where
  "scan_responses [] msg = None"
| "scan_responses ((keywords, response) # rest) msg =
     (if any_keyword_in keywords msg then Some response else scan_responses rest msg)"

definition get_bot_response :: "py_runtime \<Rightarrow> date \<Rightarrow> date \<Rightarrow> ustring \<Rightarrow> ustring" where
  "get_bot_response U d1 d2 user_message =
     (let user_message = str_lower U user_message;
          responses = RESPONSES d1 d2
      in if re_search U work_do_you user_message \<or> re_search U (Lit kay_kam_karto) user_message
         then regex_response
         else (case scan_responses responses user_message of
                 Some response \<Rightarrow> response
               | None \<Rightarrow> default_response))"

section \<open>The conversation log\<close>

text \<open>
  The table \<open>conversations\<close> of the SQLite file: it is absent until \<open>init_db\<close>
  creates it, \<open>row_id\<close> is the column \<open>id INTEGER PRIMARY KEY AUTOINCREMENT\<close> and
  \<open>sqlite_sequence\<close> is the largest row id the table has ever used.  The column
  \<open>timestamp\<close> has \<open>DEFAULT CURRENT_TIMESTAMP\<close>: SQLite fills it from its clock.
\<close>

record exchange =
  row_id :: nat
  user_message :: ustring
  bot_response :: ustring
  timestamp :: nat

record database =
  conversations :: "exchange list option"
  sqlite_sequence :: nat

datatype py_exception = AttributeError | UnicodeEncodeError | OperationalError | DataError

text \<open>
  What a request reads from outside the program: the two readings of
  \<open>datetime.date.today()\<close>, the clock of SQLite, whether \<open>sqlite3.connect\<close> raises
  (the file cannot be opened), and the exception, if any, that \<open>execute\<close> or
  \<open>commit\<close> raise for a reason of SQLite's own: \<open>OperationalError\<close> when the disk is
  full, the database is locked or the file cannot be written, \<open>DataError\<close> when a value
  exceeds SQLite's length limit.
\<close>

record environment =
  today_1 :: date
  today_2 :: date
  current_timestamp :: nat
  connect_fault :: bool
  write_fault :: "py_exception option"

definition fresh_database :: database where
  "fresh_database = \<lparr>conversations = None, sqlite_sequence = 0\<rparr>"

text \<open>\<open>CREATE TABLE IF NOT EXISTS\<close>, committed.\<close>

definition init_db :: "bool \<Rightarrow> database \<Rightarrow> py_exception + database" where
  "init_db fault db =
     (if fault then Inl OperationalError
      else case conversations db of
             None \<Rightarrow> Inr (db\<lparr>conversations := Some [], sqlite_sequence := 0\<rparr>)
           | Some rows \<Rightarrow> Inr db)"

text \<open>\<open>sqlite3.connect(DATABASE)\<close>.\<close>

definition get_db_connection :: "environment \<Rightarrow> py_exception + unit" where
  "get_db_connection E = (if connect_fault E then Inl OperationalError else Inr ())"

text \<open>
  A string is bound to a parameter of the statement as UTF-8, which has no encoding for
  the surrogate code points \<open>0xD800\<close> to \<open>0xDFFF\<close> (a JSON string can contain one):
  binding such a string raises \<open>UnicodeEncodeError\<close>.
\<close>

definition utf8_encodable :: "ustring \<Rightarrow> bool" where
  "utf8_encodable s = list_all (\<lambda>c. c < 55296 \<or> 57343 < c) s"

text \<open>
  \<open>INSERT INTO conversations (user_message, bot_response) VALUES (?, ?)\<close> and the
  commit, in the order SQLite works: the statement is compiled, which raises when the
  table does not exist; the two values are bound; the statement runs and is committed,
  which raises for the environment's reasons and when the largest row id \<open>2^63 - 1\<close>
  has been used.  Otherwise the new row gets the next id after the largest one ever
  used, and the clock's timestamp.  A failed insert leaves the file unchanged.
\<close>

definition largest_row_id :: "database \<Rightarrow> nat" where
  "largest_row_id db =
     (case conversations db of
        None \<Rightarrow> sqlite_sequence db
      | Some rows \<Rightarrow> fold max (map row_id rows) (sqlite_sequence db))"

definition insert_conversation ::
  "environment \<Rightarrow> ustring \<Rightarrow> ustring \<Rightarrow> database \<Rightarrow> py_exception + database" where
  "insert_conversation E msg resp db =
     (case conversations db of
        None \<Rightarrow> Inl OperationalError
      | Some rows \<Rightarrow>
          if \<not> utf8_encodable msg \<or> \<not> utf8_encodable resp then Inl UnicodeEncodeError
          else case write_fault E of
                 Some e \<Rightarrow> Inl e
               | None \<Rightarrow>
                   if 2 ^ 63 - 1 \<le> largest_row_id db then Inl OperationalError
                   else Inr (db\<lparr>conversations :=
                                   Some (rows @ [\<lparr>row_id = largest_row_id db + 1,
                                                  user_message = msg, bot_response = resp,
                                                  timestamp = current_timestamp E\<rparr>]),
                                 sqlite_sequence := largest_row_id db + 1\<rparr>))"

section \<open>The route /chat\<close>

text \<open>
  \<open>request.json\<close> is what Flask makes of the body of the request: a dictionary when the
  body is a JSON object; another value (\<open>None\<close>, a list, a string, a number, a boolean)
  when the body is JSON of another kind, and none of these has a method \<open>get\<close>; or
  Flask refuses the body (it is not JSON) and answers with an error status of its own.
  Of a value in the dictionary the route uses only whether it is a string and whether
  it is truthy, so a value that is neither \<open>null\<close> nor a string (a number, a boolean,
  an array, an object) is \<open>PyOther\<close> with its truth value.
\<close>

datatype py_value = PyNone | PyStr ustring | PyOther bool

type_synonym json_object = "ustring \<Rightarrow> py_value option"

datatype request_json = Body_dict json_object | Body_other | Body_rejected nat

definition dict_get :: "json_object \<Rightarrow> ustring \<Rightarrow> py_value" where
  "dict_get d k = (case d k of None \<Rightarrow> PyNone | Some v \<Rightarrow> v)"

fun truthy :: "py_value \<Rightarrow> bool" where
  "truthy PyNone = False"
| "truthy (PyStr s) = (s \<noteq> [])"
| "truthy (PyOther b) = b"

text \<open>
  The reply of the route: \<open>jsonify({"response": ...})\<close>, \<open>jsonify({"error": ...})\<close>
  with status 400, the status 500 that Flask gives an exception nobody catches, or the
  error status with which Flask refused the body.
  The trace records the calls the route made: \<open>get_bot_response\<close> with its argument
  and what it returned or raised (\<open>.lower()\<close> exists on a string only), and the insert
  with the two values bound to its parameters.
\<close>

datatype http_reply =
  Json200 ustring | Json400 ustring | Error500 py_exception | Http_error nat

datatype event = Matcher_call py_value "py_exception + ustring" | Insert_call ustring ustring

record outcome =
  reply :: http_reply
  store :: database
  trace :: "event list"

text \<open>Lines 221 to 227: connect, then insert and commit; with the calls made.\<close>

definition log_interaction ::
  "environment \<Rightarrow> ustring \<Rightarrow> ustring \<Rightarrow> database \<Rightarrow> (py_exception + database) \<times> event list" where
  "log_interaction E msg resp db =
     (case get_db_connection E of
        Inl e \<Rightarrow> (Inl e, [])
      | Inr conn \<Rightarrow> (insert_conversation E msg resp db, [Insert_call msg resp]))"

definition chat :: "py_runtime \<Rightarrow> environment \<Rightarrow> request_json \<Rightarrow> database \<Rightarrow> outcome" where
  "chat U E body db =
     (case body of
        Body_rejected status \<Rightarrow> \<lparr>reply = Http_error status, store = db, trace = []\<rparr>
      | Body_other \<Rightarrow> \<lparr>reply = Error500 AttributeError, store = db, trace = []\<rparr>
      | Body_dict json \<Rightarrow>
          (let message = dict_get json (ascii ''message'') in
           if \<not> truthy message
           then \<lparr>reply = Json400 (ascii ''No message provided''), store = db, trace = []\<rparr>
           else case message of
                  PyStr text \<Rightarrow>
                    (let response = get_bot_response U (today_1 E) (today_2 E) text;
                         (written, calls) = log_interaction E text response db
                     in case written of
                          Inl e \<Rightarrow> \<lparr>reply = Error500 e, store = db,
                                    trace = Matcher_call message (Inr response) # calls\<rparr>
                        | Inr db' \<Rightarrow> \<lparr>reply = Json200 response, store = db',
                                      trace = Matcher_call message (Inr response) # calls\<rparr>)
                | _ \<Rightarrow> \<lparr>reply = Error500 AttributeError, store = db,
                        trace = [Matcher_call message (Inl AttributeError)]\<rparr>))"

text \<open>Requests served one after the other, each with its own environment.\<close>

fun serve ::
  "py_runtime \<Rightarrow> (environment \<times> request_json) list \<Rightarrow> database \<Rightarrow> http_reply list \<times> database" where
  "serve U [] db = ([], db)"
| "serve U ((E, body) # rest) db =
     (let out = chat U E body db;
          (replies, db') = serve U rest (store out)
      in (reply out # replies, db'))"

section \<open>Sample values\<close>

text \<open>
  A runtime that is right on ASCII and on Devanagari text: Devanagari has no case, and
  its letters and digits are alphanumeric while its vowel signs and other marks are not.
\<close>

definition devanagari_alnum :: "nat \<Rightarrow> bool" where
  "devanagari_alnum c =
     ((2308 \<le> c \<and> c \<le> 2361) \<or> c = 2365 \<or> c = 2384 \<or> (2392 \<le> c \<and> c \<le> 2401) \<or>
      (2406 \<le> c \<and> c \<le> 2415) \<or> (2417 \<le> c \<and> c \<le> 2431))"

definition sample_runtime :: py_runtime where
  "sample_runtime = \<lparr>unicode_lower = (\<lambda>s. s), unicode_isalnum = devanagari_alnum\<rparr>"

definition sample_date :: date where
  "sample_date = \<lparr>year = 2024, month = 5, day = 7\<rparr>"

definition sample_environment :: "nat \<Rightarrow> environment" where
  "sample_environment t =
     \<lparr>today_1 = sample_date, today_2 = sample_date, current_timestamp = t,
      connect_fault = False, write_fault = None\<rparr>"

definition message_request :: "ustring \<Rightarrow> request_json" where
  "message_request text = Body_dict [ascii ''message'' \<mapsto> PyStr text]"

section \<open>Notions used in the statements\<close>

text \<open>Entry \<open>i\<close> of a table is the first one with a keyword in the message.\<close>

definition first_trigger :: "(ustring list \<times> ustring) list \<Rightarrow> ustring \<Rightarrow> nat \<Rightarrow> bool" where
  "first_trigger table msg i =
     (i < length table \<and> any_keyword_in (fst (table ! i)) msg \<and>
      list_all (\<lambda>(keywords, response). \<not> any_keyword_in keywords msg) (take i table))"

text \<open>The keyword that the first two entries of the table share.\<close>

definition kasa_ahes :: ustring where
  "kasa_ahes = [2325, 2360, 2366, 32, 2310, 2361, 2375, 2360]"

text \<open>The character before the cursor once the text \<open>m\<close> has been consumed.\<close>

definition prev_after :: "nat option \<Rightarrow> ustring \<Rightarrow> nat option" where
  "prev_after p m = (if m = [] then p else Some (last m))"

text \<open>
  A token that begins and ends with a word character stands between \<open>\b\<close> and \<open>\b\<close>
  when the text before it does not end, and the text after it does not begin, with a
  word character.
\<close>

definition word_token :: "py_runtime \<Rightarrow> ustring \<Rightarrow> ustring \<Rightarrow> bool" where
  "word_token U before after =
     ((before = [] \<or> \<not> is_word U (last before)) \<and> (after = [] \<or> \<not> is_word U (hd after)))"

text \<open>In \<open>pre @ tok @ mid @ ''you'' @ post\<close> the token \<open>tok\<close> is "work" or "do", and both
  it and the later "you" are word tokens.\<close>

definition token_then_you ::
  "py_runtime \<Rightarrow> ustring \<Rightarrow> ustring \<Rightarrow> ustring \<Rightarrow> ustring \<Rightarrow> bool" where
  "token_then_you U pre tok mid post =
     ((tok = ascii ''work'' \<or> tok = ascii ''do'') \<and>
      word_token U pre (mid @ ascii ''you'' @ post) \<and>
      word_token U (pre @ tok @ mid) post)"

text \<open>The specification's description of the first regular expression: a word token
  "work" or "do" occurs before a later word token "you".\<close>

definition spec_rule_1 :: "py_runtime \<Rightarrow> ustring \<Rightarrow> bool" where
  "spec_rule_1 U s =
     (\<exists>pre tok mid post. s = pre @ tok @ mid @ ascii ''you'' @ post \<and>
        token_then_you U pre tok mid post)"

text \<open>
  What the log must hold after a run of requests with these replies: one record for each
  request answered with a response, in order, numbered from \<open>k + 1\<close>, with the message
  of the request, the response of the reply and the timestamp of the write.
\<close>

definition message_text :: "request_json \<Rightarrow> ustring" where
  "message_text body =
     (case body of
        Body_dict json \<Rightarrow>
          (case dict_get json (ascii ''message'') of PyStr text \<Rightarrow> text | _ \<Rightarrow> [])
      | _ \<Rightarrow> [])"

fun is_json200 :: "http_reply \<Rightarrow> bool" where
  "is_json200 (Json200 r) = True"
| "is_json200 _ = False"

fun logged :: "nat \<Rightarrow> ((environment \<times> request_json) \<times> http_reply) list \<Rightarrow> exchange list" where
  "logged k [] = []"
| "logged k (((E, body), Json200 r) # rest) =
     \<lparr>row_id = Suc k, user_message = message_text body, bot_response = r,
      timestamp = current_timestamp E\<rparr> # logged (Suc k) rest"
| "logged k (((E, body), Json400 b) # rest) = logged k rest"
| "logged k (((E, body), Error500 e) # rest) = logged k rest"
| "logged k (((E, body), Http_error status) # rest) = logged k rest"

section \<open>Facts about the table\<close>

lemmas response_defs = greeting_response_def how_are_you_response_def help_response_def
  purpose_response_def goodbye_response_def name_response_def date_response_def
  regex_response_def default_response_def

lemmas keyword_defs = greeting_keywords_def how_are_you_keywords_def help_keywords_def
  purpose_keywords_def goodbye_keywords_def name_keywords_def date_keywords_def

lemma scan_responses_None:
  "scan_responses table msg = None \<longleftrightarrow> (\<forall>(ks, r) \<in> set table. \<forall>k \<in> set ks. \<not> str_in k msg)"
  by (induction table msg rule: scan_responses.induct)
     (auto simp: any_keyword_in_def list_ex_iff)

lemma scan_responses_Some:
  "scan_responses table msg = Some r \<Longrightarrow> r \<in> snd ` set table"
  by (induction table msg rule: scan_responses.induct) (auto split: if_splits)

lemma RESPONSES_nonempty: "r \<in> snd ` set (RESPONSES d1 d2) \<Longrightarrow> r \<noteq> []"
  by (auto simp: RESPONSES_def response_defs ascii_def)

lemma regex_response_nonempty: "regex_response \<noteq> []"
  by (simp add: regex_response_def ascii_def)

lemma default_response_nonempty: "default_response \<noteq> []"
  by (simp add: default_response_def ascii_def)

section \<open>The matcher always answers\<close>

text \<open>
  C1. \<open>get_bot_response\<close> is a total function of the message, so every string gets
  exactly one answer; the answer is never the empty string; and when neither regular
  expression matches and no keyword of the table occurs in the lowercased message, the
  answer is the fixed default response, which is not empty.
\<close>

theorem get_bot_response_never_empty:
  "get_bot_response U d1 d2 s \<noteq> [] \<and>
   default_response \<noteq> [] \<and>
   (\<not> re_search U work_do_you (str_lower U s) \<and>
    \<not> re_search U (Lit kay_kam_karto) (str_lower U s) \<and>
    (\<forall>(keywords, response) \<in> set (RESPONSES d1 d2).
       \<forall>keyword \<in> set keywords. \<not> str_in keyword (str_lower U s))
    \<longrightarrow> get_bot_response U d1 d2 s = default_response)"
proof (intro conjI impI)
  show "get_bot_response U d1 d2 s \<noteq> []"
  proof (cases "scan_responses (RESPONSES d1 d2) (str_lower U s)")
    case None
    then show ?thesis
      by (simp add: get_bot_response_def Let_def regex_response_nonempty
            default_response_nonempty)
  next
    case (Some r)
    then have "r \<noteq> []"
      using scan_responses_Some RESPONSES_nonempty by blast
    with Some show ?thesis
      by (simp add: get_bot_response_def Let_def regex_response_nonempty)
  qed
next
  show "default_response \<noteq> []" by (rule default_response_nonempty)
next
  assume h: "\<not> re_search U work_do_you (str_lower U s) \<and>
    \<not> re_search U (Lit kay_kam_karto) (str_lower U s) \<and>
    (\<forall>(keywords, response) \<in> set (RESPONSES d1 d2).
       \<forall>keyword \<in> set keywords. \<not> str_in keyword (str_lower U s))"
  then have "scan_responses (RESPONSES d1 d2) (str_lower U s) = None"
    by (simp add: scan_responses_None)
  with h show "get_bot_response U d1 d2 s = default_response"
    by (simp add: get_bot_response_def Let_def)
qed

theorem get_bot_response_never_empty_witness:
  "get_bot_response sample_runtime sample_date sample_date (ascii ''asdkjasd'')
     = default_response \<and>
   get_bot_response sample_runtime sample_date sample_date (ascii ''asdkjasd'') \<noteq> []"
proof -
  let ?m = "str_lower sample_runtime (ascii ''asdkjasd'')"
  have m: "?m = [97, 115, 100, 107, 106, 97, 115, 100]"
    by (simp add: str_lower_def is_ascii_def ascii_def ascii_lower_def)
  have 1: "\<not> re_search sample_runtime work_do_you ?m"
    unfolding m by (simp add: re_search_def work_do_you_def ascii_def is_word_def isalnum_def)
  have 2: "\<not> re_search sample_runtime (Lit kay_kam_karto) ?m"
    unfolding m by (simp add: re_search_def kay_kam_karto_def)
  have 3: "\<forall>(keywords, response) \<in> set (RESPONSES sample_date sample_date).
       \<forall>keyword \<in> set keywords. \<not> str_in keyword ?m"
    unfolding m by (simp add: RESPONSES_def keyword_defs ascii_def)
  show ?thesis
    using get_bot_response_never_empty
            [of sample_runtime sample_date sample_date "ascii ''asdkjasd''"] 1 2 3
    by blast
qed

section \<open>Order of the rules\<close>

lemma scan_responses_first:
  "first_trigger table msg i \<Longrightarrow> scan_responses table msg = Some (snd (table ! i))"
proof (induction table arbitrary: i)
  case Nil
  then show ?case by (simp add: first_trigger_def)
next
  case (Cons entry table)
  obtain kws response where entry: "entry = (kws, response)"
    by (cases entry)
  show ?case
  proof (cases i)
    case 0
    with Cons.prems entry show ?thesis by (simp add: first_trigger_def)
  next
    case (Suc j)
    with Cons.prems entry have "\<not> any_keyword_in kws msg" and "first_trigger table msg j"
      by (simp_all add: first_trigger_def)
    with Cons.IH [of j] entry Suc show ?thesis by simp
  qed
qed

text \<open>
  C2, as amended.  When entry \<open>i\<close> of the table is the first one with a keyword in the
  lowercased message, and neither regular expression matches the lowercased message,
  \<open>get_bot_response\<close> returns the response of entry \<open>i\<close>.
\<close>

theorem first_trigger_wins:
  assumes "first_trigger (RESPONSES d1 d2) (str_lower U s) i"
    and "\<not> re_search U work_do_you (str_lower U s)"
    and "\<not> re_search U (Lit kay_kam_karto) (str_lower U s)"
  shows "get_bot_response U d1 d2 s = snd (RESPONSES d1 d2 ! i)"
  using assms scan_responses_first [of "RESPONSES d1 d2" "str_lower U s" i]
  by (simp add: get_bot_response_def Let_def)

theorem first_trigger_wins_witness:
  "first_trigger (RESPONSES sample_date sample_date) (str_lower sample_runtime (ascii ''Bye for now'')) 4 \<and>
   get_bot_response sample_runtime sample_date sample_date (ascii ''Bye for now'') = goodbye_response"
proof -
  let ?m = "str_lower sample_runtime (ascii ''Bye for now'')"
  have m: "?m = [98, 121, 101, 32, 102, 111, 114, 32, 110, 111, 119]"
    by (simp add: str_lower_def is_ascii_def ascii_def ascii_lower_def)
  have 1: "\<not> re_search sample_runtime work_do_you ?m"
    unfolding m by (simp add: re_search_def work_do_you_def ascii_def is_word_def isalnum_def)
  have 2: "\<not> re_search sample_runtime (Lit kay_kam_karto) ?m"
    unfolding m by (simp add: re_search_def kay_kam_karto_def)
  have 3: "first_trigger (RESPONSES sample_date sample_date) ?m 4"
    unfolding m
    by (simp add: first_trigger_def any_keyword_in_def RESPONSES_def keyword_defs ascii_def)
  have 4: "snd (RESPONSES sample_date sample_date ! 4) = goodbye_response"
    by (simp add: RESPONSES_def)
  show ?thesis
    using first_trigger_wins [OF 3 1 2] 3 4 by simp
qed

text \<open>
  Without the condition on the regular expressions the statement fails: in
  "do you help" the first entry with a keyword is the third one ("help"), and the answer
  is the response of the regular expressions, which are tried before the table.
\<close>

theorem first_trigger_loses_to_regex:
  "first_trigger (RESPONSES sample_date sample_date)
     (str_lower sample_runtime (ascii ''do you help'')) 2 \<and>
   snd (RESPONSES sample_date sample_date ! 2) = help_response \<and>
   get_bot_response sample_runtime sample_date sample_date (ascii ''do you help'')
     \<noteq> help_response"
proof -
  let ?m = "str_lower sample_runtime (ascii ''do you help'')"
  have m: "?m = [100, 111, 32, 121, 111, 117, 32, 104, 101, 108, 112]"
    by (simp add: str_lower_def is_ascii_def ascii_def ascii_lower_def)
  have 1: "re_search sample_runtime work_do_you ?m"
    unfolding m by (simp add: re_search_def work_do_you_def ascii_def is_word_def isalnum_def)
  have 3: "first_trigger (RESPONSES sample_date sample_date) ?m 2"
    unfolding m
    by (simp add: first_trigger_def any_keyword_in_def RESPONSES_def keyword_defs ascii_def)
  have 4: "snd (RESPONSES sample_date sample_date ! 2) = help_response"
    by (simp add: RESPONSES_def)
  have 5: "regex_response \<noteq> help_response"
    by (simp add: response_defs ascii_def)
  have "get_bot_response sample_runtime sample_date sample_date (ascii ''do you help'')
          = regex_response"
    using 1 by (simp add: get_bot_response_def Let_def)
  with 3 4 5 show ?thesis by simp
qed

text \<open>
  C3.  When one of the two regular expressions matches the lowercased message, the answer
  is their fixed response, whatever keywords of the table the message contains: the
  table is not consulted.
\<close>

theorem regex_rules_preempt_table:
  "re_search U work_do_you (str_lower U s) \<or> re_search U (Lit kay_kam_karto) (str_lower U s)
   \<Longrightarrow> get_bot_response U d1 d2 s = regex_response"
  by (simp add: get_bot_response_def Let_def)

theorem regex_rules_preempt_table_witness:
  "scan_responses (RESPONSES sample_date sample_date)
     (str_lower sample_runtime (ascii ''Do you know the date'')) =
     Some (date_response sample_date sample_date) \<and>
   get_bot_response sample_runtime sample_date sample_date (ascii ''Do you know the date'')
     = regex_response"
proof -
  let ?m = "str_lower sample_runtime (ascii ''Do you know the date'')"
  have m: "?m = [100, 111, 32, 121, 111, 117, 32, 107, 110, 111, 119, 32, 116, 104, 101, 32,
                 100, 97, 116, 101]"
    by (simp add: str_lower_def is_ascii_def ascii_def ascii_lower_def)
  have 1: "re_search sample_runtime work_do_you ?m"
    unfolding m by (simp add: re_search_def work_do_you_def ascii_def is_word_def isalnum_def)
  have 2: "scan_responses (RESPONSES sample_date sample_date) ?m =
             Some (date_response sample_date sample_date)"
    unfolding m by (simp add: any_keyword_in_def RESPONSES_def keyword_defs ascii_def)
  show ?thesis
    using regex_rules_preempt_table
            [of sample_runtime "ascii ''Do you know the date''" sample_date sample_date] 1 2
    by simp
qed

section \<open>Lowercasing\<close>

lemma ascii_lower_idem: "ascii_lower (ascii_lower c) = ascii_lower c"
  by (simp add: ascii_lower_def)

lemma is_ascii_map_lower: "is_ascii s \<Longrightarrow> is_ascii (map ascii_lower s)"
  by (induction s) (auto simp: is_ascii_def ascii_lower_def)

lemma str_lower_idem:
  assumes "\<forall>t. \<not> is_ascii t \<longrightarrow> str_lower U (unicode_lower U t) = unicode_lower U t"
  shows "str_lower U (str_lower U s) = str_lower U s"
proof (cases "is_ascii s")
  case True
  then show ?thesis
    by (simp add: str_lower_def is_ascii_map_lower ascii_lower_idem)
next
  case False
  with assms show ?thesis by (simp add: str_lower_def)
qed

text \<open>
  C6.  The message is lowercased before any rule is tried, so the answer to a message is
  the answer to its lowercased form, at the same readings of the date; "HELLO there"
  gets the greeting, as "hello" does.  On ASCII text lowercasing is written out in the
  model; on other text it belongs to the runtime, of which the first part uses that
  lowercasing a lowercased string changes nothing.
\<close>

theorem lowercase_first:
  assumes "\<forall>t. \<not> is_ascii t \<longrightarrow> str_lower U (unicode_lower U t) = unicode_lower U t"
  shows "get_bot_response U d1 d2 s = get_bot_response U d1 d2 (str_lower U s) \<and>
         get_bot_response U d1 d2 (ascii ''HELLO there'') =
           get_bot_response U d1 d2 (ascii ''hello'') \<and>
         get_bot_response U d1 d2 (ascii ''hello'') = greeting_response"
proof (intro conjI)
  show "get_bot_response U d1 d2 s = get_bot_response U d1 d2 (str_lower U s)"
    by (simp add: get_bot_response_def str_lower_idem [OF assms])
next
  have a: "str_lower U (ascii ''HELLO there'') =
             [104, 101, 108, 108, 111, 32, 116, 104, 101, 114, 101]"
    by (simp add: str_lower_def is_ascii_def ascii_def ascii_lower_def)
  have b: "str_lower U (ascii ''hello'') = [104, 101, 108, 108, 111]"
    by (simp add: str_lower_def is_ascii_def ascii_def ascii_lower_def)
  have "get_bot_response U d1 d2 (ascii ''HELLO there'') = greeting_response"
    unfolding get_bot_response_def a
    by (simp add: re_search_def work_do_you_def kay_kam_karto_def ascii_def is_word_def
          isalnum_def RESPONSES_def any_keyword_in_def greeting_keywords_def)
  moreover have h: "get_bot_response U d1 d2 (ascii ''hello'') = greeting_response"
    unfolding get_bot_response_def b
    by (simp add: re_search_def work_do_you_def kay_kam_karto_def ascii_def is_word_def
          isalnum_def RESPONSES_def any_keyword_in_def greeting_keywords_def)
  ultimately show "get_bot_response U d1 d2 (ascii ''HELLO there'') =
           get_bot_response U d1 d2 (ascii ''hello'')" by simp
  show "get_bot_response U d1 d2 (ascii ''hello'') = greeting_response" by (rule h)
qed

theorem lowercase_first_witness:
  "get_bot_response sample_runtime sample_date sample_date (ascii ''Help ME'') =
     get_bot_response sample_runtime sample_date sample_date
       (str_lower sample_runtime (ascii ''Help ME'')) \<and>
   str_lower sample_runtime (ascii ''Help ME'') = ascii ''help me''"
proof -
  have idem: "\<forall>t. \<not> is_ascii t \<longrightarrow>
      str_lower sample_runtime (unicode_lower sample_runtime t) = unicode_lower sample_runtime t"
    by (simp add: str_lower_def sample_runtime_def)
  have "str_lower sample_runtime (ascii ''Help ME'') = ascii ''help me''"
    by (simp add: str_lower_def is_ascii_def ascii_def ascii_lower_def)
  with lowercase_first [OF idem, of sample_date sample_date "ascii ''Help ME''"]
  show ?thesis by simp
qed

section \<open>The shared keyword\<close>

lemma how_are_you_response_distinct:
  "regex_response \<noteq> how_are_you_response"
  "default_response \<noteq> how_are_you_response"
  "greeting_response \<noteq> how_are_you_response"
  "help_response \<noteq> how_are_you_response"
  "purpose_response \<noteq> how_are_you_response"
  "goodbye_response \<noteq> how_are_you_response"
  "name_response \<noteq> how_are_you_response"
  "date_response d1 d2 \<noteq> how_are_you_response"
  by (simp_all add: response_defs ascii_def)

text \<open>
  C10.  The keyword \<open>kasa_ahes\<close> is in the first entry (the greeting) and in the second
  one ("how are you").  Every message whose lowercased form contains it, and which
  neither regular expression matches, gets the greeting and not the second entry's
  response; and whenever the second entry's response is returned, the lowercased
  message contains "how are you" and does not contain the shared keyword.
\<close>

theorem shared_keyword_answers_greeting:
  "kasa_ahes \<in> set greeting_keywords \<and>
   kasa_ahes \<in> set how_are_you_keywords \<and>
   (str_in kasa_ahes (str_lower U s) \<and>
    \<not> re_search U work_do_you (str_lower U s) \<and>
    \<not> re_search U (Lit kay_kam_karto) (str_lower U s)
    \<longrightarrow> get_bot_response U d1 d2 s = greeting_response \<and>
        get_bot_response U d1 d2 s \<noteq> how_are_you_response) \<and>
   (get_bot_response U d1 d2 s = how_are_you_response
    \<longrightarrow> str_in (ascii ''how are you'') (str_lower U s) \<and>
        \<not> str_in kasa_ahes (str_lower U s))"
proof (intro conjI impI)
  show "kasa_ahes \<in> set greeting_keywords"
    by (simp add: kasa_ahes_def greeting_keywords_def)
  show "kasa_ahes \<in> set how_are_you_keywords"
    by (simp add: kasa_ahes_def how_are_you_keywords_def)
next
  assume h: "str_in kasa_ahes (str_lower U s) \<and>
    \<not> re_search U work_do_you (str_lower U s) \<and>
    \<not> re_search U (Lit kay_kam_karto) (str_lower U s)"
  then have "any_keyword_in greeting_keywords (str_lower U s)"
    by (simp add: any_keyword_in_def greeting_keywords_def kasa_ahes_def)
  with h show g: "get_bot_response U d1 d2 s = greeting_response"
    by (simp add: get_bot_response_def Let_def RESPONSES_def)
  show "get_bot_response U d1 d2 s \<noteq> how_are_you_response"
    using g how_are_you_response_distinct(3) by simp
next
  assume r: "get_bot_response U d1 d2 s = how_are_you_response"
  let ?m = "str_lower U s"
  from r have "\<not> any_keyword_in greeting_keywords ?m \<and> any_keyword_in how_are_you_keywords ?m"
    by (simp add: get_bot_response_def Let_def RESPONSES_def how_are_you_response_distinct
          split: if_splits)
  then have "\<not> str_in kasa_ahes ?m \<and> str_in (ascii ''how are you'') ?m"
    by (auto simp: any_keyword_in_def greeting_keywords_def how_are_you_keywords_def
          kasa_ahes_def)
  then show "str_in (ascii ''how are you'') ?m" and "\<not> str_in kasa_ahes ?m"
    by simp_all
qed

theorem shared_keyword_answers_greeting_witness:
  "str_in kasa_ahes (str_lower sample_runtime ([2340, 2370, 32] @ kasa_ahes @ ascii ''?'')) \<and>
   get_bot_response sample_runtime sample_date sample_date
     ([2340, 2370, 32] @ kasa_ahes @ ascii ''?'') = greeting_response"
proof -
  let ?s = "[2340, 2370, 32] @ kasa_ahes @ ascii ''?''"
  let ?m = "str_lower sample_runtime ?s"
  have m: "?m = [2340, 2370, 32, 2325, 2360, 2366, 32, 2310, 2361, 2375, 2360, 63]"
    by (simp add: str_lower_def is_ascii_def ascii_def kasa_ahes_def sample_runtime_def)
  have 0: "str_in kasa_ahes ?m"
    unfolding m by (simp add: kasa_ahes_def)
  have 1: "\<not> re_search sample_runtime work_do_you ?m"
    unfolding m
    by (simp add: re_search_def work_do_you_def ascii_def is_word_def isalnum_def
          sample_runtime_def devanagari_alnum_def)
  have 2: "\<not> re_search sample_runtime (Lit kay_kam_karto) ?m"
    unfolding m by (simp add: re_search_def kay_kam_karto_def)
  show ?thesis
    using shared_keyword_answers_greeting [of sample_runtime ?s sample_date sample_date] 0 1 2
    by blast
qed

section \<open>The route\<close>

lemma chat_falsy:
  "\<not> truthy (dict_get json (ascii ''message'')) \<Longrightarrow>
   chat U E (Body_dict json) db =
     \<lparr>reply = Json400 (ascii ''No message provided''), store = db, trace = []\<rparr>"
  by (simp add: chat_def Let_def)

lemma chat_text:
  "dict_get json (ascii ''message'') = PyStr text \<Longrightarrow> text \<noteq> [] \<Longrightarrow>
   chat U E (Body_dict json) db =
     (let response = get_bot_response U (today_1 E) (today_2 E) text in
      case fst (log_interaction E text response db) of
        Inl e \<Rightarrow> \<lparr>reply = Error500 e, store = db,
                  trace = Matcher_call (PyStr text) (Inr response) #
                          snd (log_interaction E text response db)\<rparr>
      | Inr db' \<Rightarrow> \<lparr>reply = Json200 response, store = db',
                    trace = Matcher_call (PyStr text) (Inr response) #
                            snd (log_interaction E text response db)\<rparr>)"
  by (simp add: chat_def Let_def case_prod_beta)

lemma chat_other:
  "dict_get json (ascii ''message'') = PyOther True \<Longrightarrow>
   chat U E (Body_dict json) db =
     \<lparr>reply = Error500 AttributeError, store = db,
      trace = [Matcher_call (PyOther True) (Inl AttributeError)]\<rparr>"
  by (simp add: chat_def Let_def)

lemma chat_not_dict:
  "chat U E Body_other db = \<lparr>reply = Error500 AttributeError, store = db, trace = []\<rparr>"
  "chat U E (Body_rejected status) db = \<lparr>reply = Http_error status, store = db, trace = []\<rparr>"
  by (simp_all add: chat_def)




lemma hello_greeting:
  "get_bot_response U d1 d2 (ascii ''hello'') = greeting_response"
proof -
  have b: "str_lower U (ascii ''hello'') = [104, 101, 108, 108, 111]"
    by (simp add: str_lower_def is_ascii_def ascii_def ascii_lower_def)
  show ?thesis
    unfolding get_bot_response_def b
    by (simp add: re_search_def work_do_you_def kay_kam_karto_def ascii_def is_word_def
          isalnum_def RESPONSES_def any_keyword_in_def greeting_keywords_def)
qed

lemma hello_encodable: "utf8_encodable (ascii ''hello'')"
  by (simp add: utf8_encodable_def ascii_def)

lemma greeting_encodable: "utf8_encodable greeting_response"
  by (simp add: utf8_encodable_def greeting_response_def ascii_def)

lemma hello_nonempty: "ascii ''hello'' \<noteq> []"
  by (simp add: ascii_def)

lemma dict_get_message: "dict_get [ascii ''message'' \<mapsto> v] (ascii ''message'') = v"
  by (simp add: dict_get_def)



text \<open>
  C9.  When the connection, the insert or the commit raises for a non-empty message
  string, the reply is status 500 with that exception and not the response; the log is
  unchanged; and the trace shows that \<open>get_bot_response\<close> had returned its response,
  the same value the insert was given when the connection had been opened.
\<close>

theorem write_failure_is_fatal:
  assumes "dict_get json (ascii ''message'') = PyStr text" and "text \<noteq> []"
    and "fst (log_interaction E text (get_bot_response U (today_1 E) (today_2 E) text) db)
           = Inl e"
  shows "chat U E (Body_dict json) db =
           \<lparr>reply = Error500 e, store = db,
            trace = Matcher_call (PyStr text)
                      (Inr (get_bot_response U (today_1 E) (today_2 E) text)) #
                    snd (log_interaction E text
                           (get_bot_response U (today_1 E) (today_2 E) text) db)\<rparr> \<and>
         reply (chat U E (Body_dict json) db) \<noteq>
           Json200 (get_bot_response U (today_1 E) (today_2 E) text) \<and>
         snd (log_interaction E text (get_bot_response U (today_1 E) (today_2 E) text) db) =
           (if connect_fault E then []
            else [Insert_call text (get_bot_response U (today_1 E) (today_2 E) text)])"
  using assms
  by (simp add: chat_text Let_def log_interaction_def get_db_connection_def)

theorem write_failure_is_fatal_witness:
  "chat sample_runtime ((sample_environment 7)\<lparr>write_fault := Some OperationalError\<rparr>)
     (message_request (ascii ''hello'')) \<lparr>conversations = Some [], sqlite_sequence = 0\<rparr> =
     \<lparr>reply = Error500 OperationalError,
      store = \<lparr>conversations = Some [], sqlite_sequence = 0\<rparr>,
      trace = [Matcher_call (PyStr (ascii ''hello'')) (Inr greeting_response),
               Insert_call (ascii ''hello'') greeting_response]\<rparr>"
proof -
  let ?E = "(sample_environment 7)\<lparr>write_fault := Some OperationalError\<rparr>"
  let ?db = "\<lparr>conversations = Some [], sqlite_sequence = 0\<rparr>"
  let ?hello = "[ascii ''message'' \<mapsto> PyStr (ascii ''hello'')]"
  have 2: "dict_get ?hello (ascii ''message'') = PyStr (ascii ''hello'')"
    by (rule dict_get_message)
  have 4: "fst (log_interaction ?E (ascii ''hello'')
             (get_bot_response sample_runtime (today_1 ?E) (today_2 ?E) (ascii ''hello'')) ?db)
           = Inl OperationalError"
    by (simp add: hello_greeting log_interaction_def get_db_connection_def
          insert_conversation_def sample_environment_def hello_encodable greeting_encodable)
  have 5: "connect_fault ?E = False"
    by (simp add: sample_environment_def)
  from write_failure_is_fatal [OF 2 hello_nonempty 4] 5 show ?thesis
    by (simp add: hello_greeting message_request_def)
qed

section \<open>The log\<close>

lemma fold_max_ge: "a \<le> fold max xs (a::nat)"
  by (induction xs arbitrary: a) (auto intro: order_trans [OF max.cobounded2])

lemma fold_max_bounded: "\<forall>x \<in> set xs. x \<le> a \<Longrightarrow> fold max xs (a::nat) = a"
  by (induction xs arbitrary: a) (auto simp: max_def)

lemma fold_max_member: "x \<in> set xs \<Longrightarrow> x \<le> fold max xs (a::nat)"
proof (induction xs arbitrary: a)
  case Nil
  then show ?case by simp
next
  case (Cons y ys)
  show ?case
  proof (cases "x = y")
    case True
    have "y \<le> max y a" by simp
    also have "\<dots> \<le> fold max ys (max y a)" by (rule fold_max_ge)
    finally show ?thesis using True by simp
  next
    case False
    with Cons.prems have "x \<in> set ys" by simp
    then show ?thesis using Cons.IH by simp
  qed
qed

lemma insert_conversation_Inr:
  assumes "insert_conversation E msg resp db = Inr db'"
  shows "\<exists>rows. conversations db = Some rows \<and>
           conversations db' =
             Some (rows @ [\<lparr>row_id = Suc (largest_row_id db), user_message = msg,
                            bot_response = resp, timestamp = current_timestamp E\<rparr>]) \<and>
           largest_row_id db' = Suc (largest_row_id db)"
proof -
  from assms obtain rows where rows: "conversations db = Some rows"
    by (auto simp: insert_conversation_def split: if_splits option.splits)
  let ?l = "largest_row_id db"
  let ?row = "\<lparr>row_id = Suc ?l, user_message = msg, bot_response = resp,
               timestamp = current_timestamp E\<rparr>"
  from assms rows have db': "db' = db\<lparr>conversations := Some (rows @ [?row]),
                                      sqlite_sequence := Suc ?l\<rparr>"
    by (auto simp: insert_conversation_def split: if_splits option.splits)
  have "\<forall>x \<in> set (map row_id rows). x \<le> Suc ?l"
    using rows fold_max_member [of _ "map row_id rows" "sqlite_sequence db"]
    by (auto simp: largest_row_id_def intro: le_SucI)
  then have "fold max (map row_id rows) (Suc ?l) = Suc ?l"
    by (rule fold_max_bounded)
  then have "largest_row_id db' = Suc ?l"
    by (simp add: db' largest_row_id_def)
  with rows db' show ?thesis by simp
qed

lemma chat_store:
  "(\<exists>r. reply (chat U E body db) = Json200 r \<and>
        (\<exists>json t. body = Body_dict json \<and>
             dict_get json (ascii ''message'') = PyStr t \<and> t \<noteq> [] \<and>
             r = get_bot_response U (today_1 E) (today_2 E) t \<and>
             insert_conversation E t r db = Inr (store (chat U E body db)))) \<or>
   (\<not> is_json200 (reply (chat U E body db)) \<and> store (chat U E body db) = db)"
proof (cases body)
  case (Body_dict json)
  show ?thesis
  proof (cases "dict_get json (ascii ''message'')")
    case PyNone
    with Body_dict show ?thesis by (simp add: chat_falsy)
  next
    case (PyStr t)
    show ?thesis
    proof (cases "t = []")
      case True
      with PyStr Body_dict show ?thesis by (simp add: chat_falsy)
    next
      case False
      let ?r = "get_bot_response U (today_1 E) (today_2 E) t"
      show ?thesis
      proof (cases "fst (log_interaction E t ?r db)")
        case (Inl e)
        with PyStr False Body_dict show ?thesis
          by (simp add: chat_text Let_def)
      next
        case (Inr db2)
        then have "insert_conversation E t ?r db = Inr db2"
          by (simp add: log_interaction_def get_db_connection_def split: if_splits)
        with Inr PyStr False Body_dict show ?thesis
          by (simp add: chat_text Let_def)
      qed
    qed
  next
    case (PyOther b)
    with Body_dict show ?thesis
      by (cases b) (simp_all add: chat_falsy chat_other)
  qed
next
  case Body_other
  then show ?thesis by (simp add: chat_not_dict)
next
  case (Body_rejected status)
  then show ?thesis by (simp add: chat_not_dict)
qed

lemma serve_length: "serve U reqs db = (replies, db') \<Longrightarrow> length replies = length reqs"
  by (induction U reqs db arbitrary: replies db' rule: serve.induct)
     (auto simp: Let_def split: prod.splits)

lemma serve_log:
  assumes "serve U reqs db = (replies, db')" and "conversations db = Some rows"
  shows "conversations db' = Some (rows @ logged (largest_row_id db) (zip reqs replies)) \<and>
         largest_row_id db' = largest_row_id db + length (filter is_json200 replies)"
  using assms
proof (induction reqs arbitrary: db rows replies)
  case Nil
  then show ?case by simp
next
  case (Cons req reqs)
  obtain E body where req: "req = (E, body)" by (cases req)
  let ?out = "chat U E body db"
  from Cons.prems(1) req obtain rest
    where rest: "serve U reqs (store ?out) = (rest, db')"
      and eq: "replies = reply ?out # rest"
    by (auto simp: Let_def split: prod.splits)
  from chat_store [of U E body db] show ?case
  proof
    assume "\<exists>r. reply ?out = Json200 r \<and>
        (\<exists>json t. body = Body_dict json \<and>
             dict_get json (ascii ''message'') = PyStr t \<and> t \<noteq> [] \<and>
             r = get_bot_response U (today_1 E) (today_2 E) t \<and>
             insert_conversation E t r db = Inr (store ?out))"
    then obtain r json t where r: "reply ?out = Json200 r"
      and t: "body = Body_dict json" "dict_get json (ascii ''message'') = PyStr t"
      and ins: "insert_conversation E t r db = Inr (store ?out)"
      by blast
    from insert_conversation_Inr [OF ins] Cons.prems(2)
    have c: "conversations (store ?out) =
               Some (rows @ [\<lparr>row_id = Suc (largest_row_id db), user_message = t,
                              bot_response = r, timestamp = current_timestamp E\<rparr>])"
      and l: "largest_row_id (store ?out) = Suc (largest_row_id db)"
      by simp_all
    from Cons.IH [OF rest c] l eq r t req show ?thesis
      by (simp add: message_text_def)
  next
    assume h: "\<not> is_json200 (reply ?out) \<and> store ?out = db"
    with rest Cons.prems(2) Cons.IH [of db rest rows]
    have "conversations db' = Some (rows @ logged (largest_row_id db) (zip reqs rest)) \<and>
          largest_row_id db' = largest_row_id db + length (filter is_json200 rest)"
      by simp
    with h eq req show ?thesis
      by (cases "reply ?out") simp_all
  qed
qed

lemma logged_ids:
  "map row_id (logged k xs) = [Suc k..<Suc k + length (filter is_json200 (map snd xs))]"
proof (induction k xs rule: logged.induct)
  case (2 k E body r rest)
  let ?n = "length (filter is_json200 (map snd rest))"
  have "[Suc k..<Suc k + Suc ?n] = Suc k # [Suc (Suc k)..<Suc k + Suc ?n]"
    by (rule upt_conv_Cons) simp
  with 2 show ?case by (simp del: upt_Suc)
qed simp_all

lemma serve_replies:
  assumes "serve U reqs db = (replies, db')"
    and "((E, body), Json200 r) \<in> set (zip reqs replies)"
  shows "\<exists>json t. body = Body_dict json \<and>
             dict_get json (ascii ''message'') = PyStr t \<and> t \<noteq> [] \<and>
             r = get_bot_response U (today_1 E) (today_2 E) t"
  using assms
proof (induction reqs arbitrary: db replies)
  case Nil
  then show ?case by simp
next
  case (Cons req reqs)
  obtain E' body' where req: "req = (E', body')" by (cases req)
  let ?out = "chat U E' body' db"
  from Cons.prems(1) req obtain rest
    where rest: "serve U reqs (store ?out) = (rest, db')"
      and eq: "replies = reply ?out # rest"
    by (auto simp: Let_def split: prod.splits)
  with Cons.prems(2) req
  consider "E' = E \<and> body' = body \<and> reply ?out = Json200 r"
    | "((E, body), Json200 r) \<in> set (zip reqs rest)"
    by auto
  then show ?case
  proof cases
    case 1
    with chat_store [of U E body db] show ?thesis by auto
  next
    case 2
    with Cons.IH [OF rest] show ?thesis by simp
  qed
qed

text \<open>
  C8.  Starting from the store that \<open>init_db\<close> makes of a fresh file, after any run of
  requests the table holds exactly one record for each request that was answered with a
  response, in order: \<open>n\<close> records after \<open>n\<close> such requests, their identifiers
  \<open>1, ..., n\<close>, the \<open>k\<close>-th with the message and the response of the \<open>k\<close>-th such
  request and with the timestamp of SQLite's clock at the write; and each response
  returned is the matcher's answer to the non-empty message string of its request.
\<close>

theorem log_after_calls:
  assumes "init_db False fresh_database = Inr db0"
    and "serve U reqs db0 = (replies, db)"
  shows "conversations db = Some (logged 0 (zip reqs replies)) \<and>
         length (logged 0 (zip reqs replies)) = length (filter is_json200 replies) \<and>
         map row_id (logged 0 (zip reqs replies)) =
           [1..<Suc (length (filter is_json200 replies))] \<and>
         (\<forall>((E, body), rep) \<in> set (zip reqs replies). \<forall>r. rep = Json200 r \<longrightarrow>
            (\<exists>json t. body = Body_dict json \<and>
                 dict_get json (ascii ''message'') = PyStr t \<and> t \<noteq> [] \<and>
                 r = get_bot_response U (today_1 E) (today_2 E) t))"
proof -
  from assms(1) have db0: "conversations db0 = Some []" "largest_row_id db0 = 0"
    by (auto simp: init_db_def fresh_database_def largest_row_id_def)
  have snd_zip: "map snd (zip reqs replies) = replies"
    using serve_length [OF assms(2)] by simp
  have ids: "map row_id (logged 0 (zip reqs replies)) =
               [1..<Suc (length (filter is_json200 replies))]"
    using logged_ids [of 0 "zip reqs replies"] by (simp add: snd_zip)
  have "length (map row_id (logged 0 (zip reqs replies))) = length (filter is_json200 replies)"
    unfolding ids by (simp del: upt_Suc)
  then have len: "length (logged 0 (zip reqs replies)) = length (filter is_json200 replies)"
    by simp
  have log: "conversations db = Some (logged 0 (zip reqs replies))"
    using serve_log [OF assms(2) db0(1)] db0(2) by simp
  have "\<forall>((E, body), rep) \<in> set (zip reqs replies). \<forall>r. rep = Json200 r \<longrightarrow>
            (\<exists>json t. body = Body_dict json \<and>
                 dict_get json (ascii ''message'') = PyStr t \<and> t \<noteq> [] \<and>
                 r = get_bot_response U (today_1 E) (today_2 E) t)"
    using serve_replies [OF assms(2)] by auto
  with log len ids show ?thesis by simp
qed

lemma bye_goodbye:
  "get_bot_response U d1 d2 (ascii ''bye'') = goodbye_response"
proof -
  have b: "str_lower U (ascii ''bye'') = [98, 121, 101]"
    by (simp add: str_lower_def is_ascii_def ascii_def ascii_lower_def)
  show ?thesis
    unfolding get_bot_response_def b
    by (simp add: re_search_def work_do_you_def kay_kam_karto_def ascii_def is_word_def
          isalnum_def RESPONSES_def any_keyword_in_def keyword_defs)
qed

lemma bye_encodable: "utf8_encodable (ascii ''bye'')" "utf8_encodable goodbye_response"
  by (simp_all add: utf8_encodable_def goodbye_response_def ascii_def)

theorem log_after_calls_witness:
  "serve sample_runtime
     [(sample_environment 100, message_request (ascii ''hello'')),
      (sample_environment 150, message_request []),
      (sample_environment 200, message_request (ascii ''bye''))]
     \<lparr>conversations = Some [], sqlite_sequence = 0\<rparr> =
   ([Json200 greeting_response, Json400 (ascii ''No message provided''),
     Json200 goodbye_response],
    \<lparr>conversations =
       Some [\<lparr>row_id = 1, user_message = ascii ''hello'', bot_response = greeting_response,
               timestamp = 100\<rparr>,
             \<lparr>row_id = 2, user_message = ascii ''bye'', bot_response = goodbye_response,
               timestamp = 200\<rparr>],
     sqlite_sequence = 2\<rparr>) \<and>
   logged 0 (zip [(sample_environment 100, message_request (ascii ''hello'')),
                  (sample_environment 150, message_request []),
                  (sample_environment 200, message_request (ascii ''bye''))]
                 [Json200 greeting_response, Json400 (ascii ''No message provided''),
                  Json200 goodbye_response]) =
     [\<lparr>row_id = 1, user_message = ascii ''hello'', bot_response = greeting_response,
        timestamp = 100\<rparr>,
      \<lparr>row_id = 2, user_message = ascii ''bye'', bot_response = goodbye_response,
        timestamp = 200\<rparr>]"
proof -
  let ?reqs = "[(sample_environment 100, message_request (ascii ''hello'')),
      (sample_environment 150, message_request []),
      (sample_environment 200, message_request (ascii ''bye''))]"
  let ?replies = "[Json200 greeting_response, Json400 (ascii ''No message provided''),
     Json200 goodbye_response]"
  let ?rows = "[\<lparr>row_id = 1, user_message = ascii ''hello'', bot_response = greeting_response,
               timestamp = 100\<rparr>,
             \<lparr>row_id = 2, user_message = ascii ''bye'', bot_response = goodbye_response,
               timestamp = 200\<rparr>]"
  let ?db0 = "\<lparr>conversations = Some [], sqlite_sequence = 0\<rparr>"
  have init: "init_db False fresh_database = Inr ?db0"
    by (simp add: init_db_def fresh_database_def)
  have ne: "ascii ''hello'' \<noteq> []" "ascii ''bye'' \<noteq> []"
    by (simp_all add: ascii_def)
  have run: "serve sample_runtime ?reqs ?db0 =
               (?replies, \<lparr>conversations = Some ?rows, sqlite_sequence = 2\<rparr>)"
    using ne
    by (simp add: chat_def Let_def dict_get_def message_request_def hello_greeting bye_goodbye
          log_interaction_def get_db_connection_def insert_conversation_def
          largest_row_id_def sample_environment_def hello_encodable greeting_encodable
          bye_encodable)
  from log_after_calls [OF init run]
  have "Some ?rows = Some (logged 0 (zip ?reqs ?replies))" by simp
  with run show ?thesis by simp
qed

section \<open>Dates\<close>

lemma div_mod_10_eq:
  fixes a b :: nat
  assumes "a div 10 = b div 10" and "a mod 10 = b mod 10"
  shows "a = b"
proof -
  have "a = 10 * (a div 10) + a mod 10" by simp
  also have "\<dots> = 10 * (b div 10) + b mod 10" using assms by simp
  also have "\<dots> = b" by simp
  finally show ?thesis .
qed

lemma decimal_digit: "n < 10 \<Longrightarrow> decimal n = [48 + n]"
  by simp

lemma decimal_step: "10 \<le> n \<Longrightarrow> decimal n = decimal (n div 10) @ [48 + n mod 10]"
  by (subst decimal.simps) simp

lemma two_digits_eq:
  assumes "n < 100"
  shows "two_digits n = [48 + n div 10, 48 + n mod 10]"
proof (cases "n < 10")
  case True
  then show ?thesis by (simp add: two_digits_def)
next
  case False
  with assms have "n div 10 < 10" by simp
  with False show ?thesis
    by (simp add: two_digits_def decimal_step decimal_digit del: decimal.simps)
qed

lemma decimal_year:
  assumes "1000 \<le> y" and "y \<le> 9999"
  shows "decimal y =
           [48 + y div 1000, 48 + y div 100 mod 10, 48 + y div 10 mod 10, 48 + y mod 10]"
proof -
  have a: "10 \<le> y" "10 \<le> y div 10" "10 \<le> y div 10 div 10" "y div 10 div 10 div 10 < 10"
    using assms by simp_all
  have b: "y div 10 div 10 = y div 100" "y div 10 div 10 div 10 = y div 1000"
    by (simp_all add: div_mult2_eq [symmetric])
  have "decimal y = decimal (y div 10 div 10 div 10) @
          [48 + y div 10 div 10 mod 10, 48 + y div 10 mod 10, 48 + y mod 10]"
    using a by (simp add: decimal_step del: decimal.simps)
  also have "decimal (y div 10 div 10 div 10) = [48 + y div 10 div 10 div 10]"
    using a(4) by (rule decimal_digit)
  finally show ?thesis by (simp add: b del: decimal.simps)
qed

lemma month_names_distinct: "distinct month_names"
  by (simp add: month_names_def ascii_def)

lemma month_names_no_space: "\<forall>name \<in> set month_names. 32 \<notin> set name"
  by (simp add: month_names_def ascii_def)

lemma month_name_inj:
  assumes "1 \<le> m" "m \<le> 12" "1 \<le> m'" "m' \<le> 12" "month_name m = month_name m'"
  shows "m = m'"
proof -
  have len: "length month_names = 12" by (simp add: month_names_def)
  from assms have "month_names ! (m - 1) = month_names ! (m' - 1)"
    by (simp add: month_name_def)
  with assms len have "m - 1 = m' - 1"
    by (simp add: nth_eq_iff_index_eq [OF month_names_distinct])
  with assms show ?thesis by simp
qed

lemma month_name_no_space:
  assumes "1 \<le> m" "m \<le> 12"
  shows "32 \<notin> set (month_name m)"
proof -
  have "length month_names = 12" by (simp add: month_names_def)
  with assms have "month_names ! (m - 1) \<in> set month_names" by simp
  with assms month_names_no_space show ?thesis by (simp add: month_name_def)
qed

lemma strftime_shape:
  assumes "valid_date d"
  shows "strftime_B_d_Y d =
           month_name (month d) @
           [32, 48 + day d div 10, 48 + day d mod 10, 44, 32,
            48 + year d div 1000, 48 + year d div 100 mod 10, 48 + year d div 10 mod 10,
            48 + year d mod 10]"
proof -
  from assms have "day d < 100" "1000 \<le> year d" "year d \<le> 9999"
    by (simp_all add: valid_date_def)
  then show ?thesis
    by (simp add: strftime_B_d_Y_def two_digits_eq decimal_year ascii_def del: decimal.simps)
qed

lemma takeWhile_month:
  assumes "1 \<le> m" "m \<le> 12"
  shows "takeWhile (\<lambda>c. c \<noteq> 32) (month_name m @ 32 # rest) = month_name m"
proof -
  from month_name_no_space [OF assms] have "\<forall>c \<in> set (month_name m). c \<noteq> 32" by auto
  then show ?thesis by (simp add: takeWhile_append2)
qed

lemma strftime_inj:
  assumes "valid_date d" "valid_date d'"
    and eq: "strftime_B_d_Y d @ X = strftime_B_d_Y d' @ X'"
  shows "d = d'"
proof -
  from assms(1,2) have m: "1 \<le> month d" "month d \<le> 12" "1 \<le> month d'" "month d' \<le> 12"
    and dy: "day d < 100" "day d' < 100"
    and yr: "year d \<le> 9999" "year d' \<le> 9999"
    by (simp_all add: valid_date_def)
  let ?t = "\<lambda>d. [48 + day d div 10, 48 + day d mod 10, 44, 32,
            48 + year d div 1000, 48 + year d div 100 mod 10, 48 + year d div 10 mod 10,
            48 + year d mod 10]"
  from eq have e: "month_name (month d) @ 32 # (?t d @ X) = month_name (month d') @ 32 # (?t d' @ X')"
    by (simp add: strftime_shape assms(1,2))
  then have "takeWhile (\<lambda>c. c \<noteq> 32) (month_name (month d) @ 32 # (?t d @ X)) =
             takeWhile (\<lambda>c. c \<noteq> 32) (month_name (month d') @ 32 # (?t d' @ X'))"
    by (rule arg_cong)
  then have mn: "month_name (month d) = month_name (month d')"
    by (simp only: takeWhile_month m)
  then have mm: "month d = month d'"
    using m month_name_inj by blast
  from e mn have "?t d @ X = ?t d' @ X'" by simp
  then have f: "day d div 10 = day d' div 10" "day d mod 10 = day d' mod 10"
    "year d div 1000 = year d' div 1000" "year d div 100 mod 10 = year d' div 100 mod 10"
    "year d div 10 mod 10 = year d' div 10 mod 10" "year d mod 10 = year d' mod 10"
    by simp_all
  have dd: "day d = day d'"
    using f(1,2) by (rule div_mod_10_eq)
  have c: "year d div 100 div 10 = year d div 1000" "year d' div 100 div 10 = year d' div 1000"
    "year d div 10 div 10 = year d div 100" "year d' div 10 div 10 = year d' div 100"
    by (simp_all add: div_mult2_eq [symmetric])
  have "year d div 100 = year d' div 100"
  proof (rule div_mod_10_eq)
    show "year d div 100 div 10 = year d' div 100 div 10" by (simp only: c f(3))
    show "year d div 100 mod 10 = year d' div 100 mod 10" by (rule f(4))
  qed
  then have "year d div 10 div 10 = year d' div 10 div 10"
    by (simp only: c)
  then have "year d div 10 = year d' div 10"
    using f(5) by (rule div_mod_10_eq)
  then have yy: "year d = year d'"
    using f(6) by (rule div_mod_10_eq)
  from mm dd yy show ?thesis by simp
qed


section \<open>Substrings\<close>

lemma is_prefix_append: "is_prefix sub (sub @ post)"
  by (induction sub) simp_all

lemma str_in_prefix: "is_prefix sub s \<Longrightarrow> str_in sub s"
  by (cases s; cases sub) simp_all

lemma str_in_append: "str_in sub (pre @ sub @ post)"
  by (induction pre) (simp_all add: str_in_prefix is_prefix_append)

section \<open>The date\<close>

lemma todays_date_response:
  "get_bot_response U d1 d2 (ascii ''today's date'') = date_response d1 d2"
proof -
  have b: "str_lower U (ascii ''today's date'') =
             [116, 111, 100, 97, 121, 39, 115, 32, 100, 97, 116, 101]"
    by (simp add: str_lower_def is_ascii_def ascii_def ascii_lower_def)
  show ?thesis
    unfolding get_bot_response_def b
    by (simp add: re_search_def work_do_you_def kay_kam_karto_def ascii_def is_word_def
          isalnum_def RESPONSES_def any_keyword_in_def keyword_defs)
qed

text \<open>
  C5.  The entry with the keyword "date" answers "today's date" with a response built
  from the two readings of the date made during that call: it contains both, formatted
  as the month name, the day on two digits, a comma and the year on four digits.  Two
  calls on different days therefore give different date strings and different
  responses.
\<close>

theorem date_computed_per_call:
  "get_bot_response U d1 d2 (ascii ''today's date'') = date_response d1 d2 \<and>
   str_in (strftime_B_d_Y d1) (date_response d1 d2) \<and>
   str_in (strftime_B_d_Y d2) (date_response d1 d2) \<and>
   (valid_date d \<longrightarrow>
      strftime_B_d_Y d =
        month_name (month d) @
        [32, 48 + day d div 10, 48 + day d mod 10, 44, 32,
         48 + year d div 1000, 48 + year d div 100 mod 10, 48 + year d div 10 mod 10,
         48 + year d mod 10]) \<and>
   (valid_date d \<and> valid_date d' \<and> d \<noteq> d' \<longrightarrow>
      strftime_B_d_Y d \<noteq> strftime_B_d_Y d' \<and>
      get_bot_response U d d (ascii ''today's date'') \<noteq>
        get_bot_response U d' d' (ascii ''today's date''))"
proof (intro conjI impI)
  show "get_bot_response U d1 d2 (ascii ''today's date'') = date_response d1 d2"
    by (rule todays_date_response)
  show "str_in (strftime_B_d_Y d1) (date_response d1 d2)"
    unfolding date_response_def by (rule str_in_append)
  have "str_in (strftime_B_d_Y d2)
          ((ascii ''Today's date is: '' @ strftime_B_d_Y d1 @
            [46, 32, 40, 2310, 2332, 2330, 2368, 32, 2340, 2366, 2352, 2368, 2326, 32, 2310,
             2361, 2375, 58, 32]) @ strftime_B_d_Y d2 @ ascii '')'')"
    by (rule str_in_append)
  then show "str_in (strftime_B_d_Y d2) (date_response d1 d2)"
    by (simp add: date_response_def)
next
  assume "valid_date d"
  then show "strftime_B_d_Y d =
        month_name (month d) @
        [32, 48 + day d div 10, 48 + day d mod 10, 44, 32,
         48 + year d div 1000, 48 + year d div 100 mod 10, 48 + year d div 10 mod 10,
         48 + year d mod 10]"
    by (rule strftime_shape)
next
  assume h: "valid_date d \<and> valid_date d' \<and> d \<noteq> d'"
  show "strftime_B_d_Y d \<noteq> strftime_B_d_Y d'"
  proof
    assume "strftime_B_d_Y d = strftime_B_d_Y d'"
    then have "strftime_B_d_Y d @ [] = strftime_B_d_Y d' @ []" by simp
    with h strftime_inj show False by blast
  qed
  show "get_bot_response U d d (ascii ''today's date'') \<noteq>
        get_bot_response U d' d' (ascii ''today's date'')"
  proof
    assume "get_bot_response U d d (ascii ''today's date'') =
            get_bot_response U d' d' (ascii ''today's date'')"
    then have "date_response d d = date_response d' d'"
      by (simp only: todays_date_response)
    then have "\<exists>X X'. strftime_B_d_Y d @ X = strftime_B_d_Y d' @ X'"
      by (auto simp: date_response_def)
    with h strftime_inj show False by blast
  qed
qed

theorem date_computed_per_call_witness:
  "strftime_B_d_Y sample_date = ascii ''May 07, 2024'' \<and>
   get_bot_response sample_runtime sample_date sample_date (ascii ''today's date'') \<noteq>
     get_bot_response sample_runtime (sample_date\<lparr>day := 8\<rparr>) (sample_date\<lparr>day := 8\<rparr>)
       (ascii ''today's date'')"
proof -
  have v: "valid_date sample_date" "valid_date (sample_date\<lparr>day := 8\<rparr>)"
    by (simp_all add: valid_date_def sample_date_def)
  have n: "sample_date \<noteq> sample_date\<lparr>day := 8\<rparr>"
    by (simp add: sample_date_def)
  note T = date_computed_per_call [of sample_runtime sample_date sample_date sample_date
         "sample_date\<lparr>day := 8\<rparr>"]
  from T v(1) have shape: "strftime_B_d_Y sample_date =
        month_name (month sample_date) @
        [32, 48 + day sample_date div 10, 48 + day sample_date mod 10, 44, 32,
         48 + year sample_date div 1000, 48 + year sample_date div 100 mod 10,
         48 + year sample_date div 10 mod 10, 48 + year sample_date mod 10]"
    by blast
  from T v n have ne: "get_bot_response sample_runtime sample_date sample_date
       (ascii ''today's date'') \<noteq>
     get_bot_response sample_runtime (sample_date\<lparr>day := 8\<rparr>) (sample_date\<lparr>day := 8\<rparr>)
       (ascii ''today's date'')"
    by blast
  have "strftime_B_d_Y sample_date = ascii ''May 07, 2024''"
    unfolding shape by (simp add: month_name_def month_names_def sample_date_def ascii_def)
  with ne show ?thesis by (rule conjI [rotated])
qed

section \<open>What the matcher computes\<close>

lemma prev_after_append: "prev_after (prev_after p a) b = prev_after p (a @ b)"
  by (simp add: prev_after_def)

lemma advance_Some:
  "advance (p, post) t = Some c \<longleftrightarrow> (\<exists>rest. post = t @ rest \<and> c = (prev_after p t, rest))"
proof (induction t arbitrary: p post)
  case Nil
  then show ?case by (auto simp: prev_after_def)
next
  case (Cons a ts)
  show ?case
  proof (cases post)
    case Nil
    then show ?thesis by simp
  next
    case (Cons x xs)
    with Cons.IH [of "Some x" xs] show ?thesis
      by (auto simp: prev_after_def)
  qed
qed

lemma prev_after_Nil: "prev_after p [] = p"
  by (simp add: prev_after_def)

lemma prev_after_Cons: "prev_after p (x # m) = prev_after (Some x) m"
  by (simp add: prev_after_def)

lemma dot_star_set:
  "c \<in> set (dot_star (p, post)) \<longleftrightarrow>
     (\<exists>m rest. post = m @ rest \<and> 10 \<notin> set m \<and> c = (prev_after p m, rest))"
proof (induction post arbitrary: p)
  case Nil
  then show ?case by (auto simp: prev_after_Nil)
next
  case (Cons x xs)
  show ?case
  proof (cases "x = 10")
    case True
    show ?thesis
    proof
      assume "c \<in> set (dot_star (p, x # xs))"
      with True have "x # xs = [] @ (x # xs) \<and> 10 \<notin> set ([]::nat list) \<and>
          c = (prev_after p [], x # xs)"
        by (simp add: prev_after_Nil prev_after_Cons)
      then show "\<exists>m rest. x # xs = m @ rest \<and> 10 \<notin> set m \<and> c = (prev_after p m, rest)"
        by blast
    next
      assume "\<exists>m rest. x # xs = m @ rest \<and> 10 \<notin> set m \<and> c = (prev_after p m, rest)"
      then obtain m rest where m: "x # xs = m @ rest" "10 \<notin> set m"
        "c = (prev_after p m, rest)" by blast
      show "c \<in> set (dot_star (p, x # xs))"
      proof (cases m)
        case Nil
        with m have "c = (p, x # xs)" by (simp add: prev_after_Nil prev_after_Cons)
        with True show ?thesis by simp
      next
        case (Cons y m')
        with m True show ?thesis by simp
      qed
    qed
  next
    case False
    have "c \<in> set (dot_star (p, x # xs)) \<longleftrightarrow>
            c = (p, x # xs) \<or> c \<in> set (dot_star (Some x, xs))"
      using False by auto
    also have "\<dots> \<longleftrightarrow> c = (p, x # xs) \<or>
        (\<exists>m' rest. xs = m' @ rest \<and> 10 \<notin> set m' \<and> c = (prev_after (Some x) m', rest))"
      by (simp only: Cons.IH)
    also have "\<dots> \<longleftrightarrow> (\<exists>m rest. x # xs = m @ rest \<and> 10 \<notin> set m \<and> c = (prev_after p m, rest))"
    proof
      assume "c = (p, x # xs) \<or>
        (\<exists>m' rest. xs = m' @ rest \<and> 10 \<notin> set m' \<and> c = (prev_after (Some x) m', rest))"
      then show "\<exists>m rest. x # xs = m @ rest \<and> 10 \<notin> set m \<and> c = (prev_after p m, rest)"
      proof
        assume "c = (p, x # xs)"
        then have "x # xs = [] @ (x # xs) \<and> 10 \<notin> set ([]::nat list) \<and> c = (prev_after p [], x # xs)"
          by (simp add: prev_after_Nil prev_after_Cons)
        then show ?thesis by blast
      next
        assume "\<exists>m' rest. xs = m' @ rest \<and> 10 \<notin> set m' \<and> c = (prev_after (Some x) m', rest)"
        then obtain m' rest where "xs = m' @ rest" "10 \<notin> set m'"
          "c = (prev_after (Some x) m', rest)" by blast
        with False have "x # xs = (x # m') @ rest \<and> 10 \<notin> set (x # m') \<and>
            c = (prev_after p (x # m'), rest)"
          by (simp add: prev_after_Nil prev_after_Cons)
        then show ?thesis by blast
      qed
    next
      assume "\<exists>m rest. x # xs = m @ rest \<and> 10 \<notin> set m \<and> c = (prev_after p m, rest)"
      then obtain m rest where m: "x # xs = m @ rest" "10 \<notin> set m" "c = (prev_after p m, rest)"
        by blast
      show "c = (p, x # xs) \<or>
        (\<exists>m' rest. xs = m' @ rest \<and> 10 \<notin> set m' \<and> c = (prev_after (Some x) m', rest))"
      proof (cases m)
        case Nil
        with m show ?thesis by (simp add: prev_after_Nil prev_after_Cons)
      next
        case (Cons y m')
        with m have "xs = m' @ rest \<and> 10 \<notin> set m' \<and> c = (prev_after (Some x) m', rest)"
          by (simp add: prev_after_Nil prev_after_Cons)
        then show ?thesis by blast
      qed
    qed
    finally show ?thesis .
  qed
qed

lemma search_from_iff:
  "search_from U r (p, post) \<longleftrightarrow>
     (\<exists>m rest. post = m @ rest \<and> ends U r (prev_after p m, rest) \<noteq> [])"
proof (induction post arbitrary: p)
  case Nil
  then show ?case by (simp add: prev_after_Nil prev_after_Cons)
next
  case (Cons x xs)
  have "search_from U r (p, x # xs) \<longleftrightarrow>
          ends U r (p, x # xs) \<noteq> [] \<or>
          (\<exists>m' rest. xs = m' @ rest \<and> ends U r (prev_after (Some x) m', rest) \<noteq> [])"
    by (simp add: Cons.IH)
  also have "\<dots> \<longleftrightarrow> (\<exists>m rest. x # xs = m @ rest \<and> ends U r (prev_after p m, rest) \<noteq> [])"
  proof
    assume "ends U r (p, x # xs) \<noteq> [] \<or>
          (\<exists>m' rest. xs = m' @ rest \<and> ends U r (prev_after (Some x) m', rest) \<noteq> [])"
    then show "\<exists>m rest. x # xs = m @ rest \<and> ends U r (prev_after p m, rest) \<noteq> []"
    proof
      assume "ends U r (p, x # xs) \<noteq> []"
      then have "x # xs = [] @ (x # xs) \<and> ends U r (prev_after p [], x # xs) \<noteq> []"
        by (simp add: prev_after_Nil prev_after_Cons)
      then show ?thesis by blast
    next
      assume "\<exists>m' rest. xs = m' @ rest \<and> ends U r (prev_after (Some x) m', rest) \<noteq> []"
      then obtain m' rest where "xs = m' @ rest"
        "ends U r (prev_after (Some x) m', rest) \<noteq> []" by blast
      then have "x # xs = (x # m') @ rest \<and> ends U r (prev_after p (x # m'), rest) \<noteq> []"
        by (simp add: prev_after_Nil prev_after_Cons)
      then show ?thesis by blast
    qed
  next
    assume "\<exists>m rest. x # xs = m @ rest \<and> ends U r (prev_after p m, rest) \<noteq> []"
    then obtain m rest where m: "x # xs = m @ rest" "ends U r (prev_after p m, rest) \<noteq> []"
      by blast
    show "ends U r (p, x # xs) \<noteq> [] \<or>
          (\<exists>m' rest. xs = m' @ rest \<and> ends U r (prev_after (Some x) m', rest) \<noteq> [])"
    proof (cases m)
      case Nil
      with m show ?thesis by (simp add: prev_after_Nil prev_after_Cons)
    next
      case (Cons y m')
      with m have "xs = m' @ rest \<and> ends U r (prev_after (Some x) m', rest) \<noteq> []"
        by (simp add: prev_after_Nil prev_after_Cons)
      then show ?thesis by blast
    qed
  qed
  finally show ?case .
qed

lemma ends_Seq_nonempty:
  "ends U (Seq a b) c \<noteq> [] \<longleftrightarrow> (\<exists>x \<in> set (ends U a c). ends U b x \<noteq> [])"
  by auto

lemma ends_Boundary_nonempty: "ends U Boundary c \<noteq> [] \<longleftrightarrow> at_boundary U c"
  by simp

lemma ends_Boundary_set: "x \<in> set (ends U Boundary c) \<longleftrightarrow> at_boundary U c \<and> x = c"
  by auto

lemma ends_Lit_set:
  "x \<in> set (ends U (Lit t) (p, post)) \<longleftrightarrow> (\<exists>rest. post = t @ rest \<and> x = (prev_after p t, rest))"
proof (cases "advance (p, post) t")
  case None
  with advance_Some [of p post t] show ?thesis by auto
next
  case (Some c)
  with advance_Some [of p post t c] show ?thesis by auto
qed

lemma ends_DotStar_set:
  "x \<in> set (ends U DotStar (p, post)) \<longleftrightarrow>
     (\<exists>m rest. post = m @ rest \<and> 10 \<notin> set m \<and> x = (prev_after p m, rest))"
  by (simp add: dot_star_set)

lemma at_boundary_iff:
  "at_boundary U (prev_after None before, after) \<longleftrightarrow>
     ((after \<noteq> [] \<and> is_word U (hd after)) \<noteq> (before \<noteq> [] \<and> is_word U (last before)))"
  by (cases after; cases "before = []") (simp_all add: prev_after_def)

lemma boundary_before_token:
  assumes "tok \<noteq> []" and "is_word U (hd tok)"
  shows "at_boundary U (prev_after None pre, tok @ rest) \<longleftrightarrow>
           (pre = [] \<or> \<not> is_word U (last pre))"
  using assms by (auto simp: at_boundary_iff simp del: at_boundary.simps)

lemma boundary_after_token:
  assumes "tok \<noteq> []" and "is_word U (last tok)"
  shows "at_boundary U (prev_after None (pre @ tok), rest) \<longleftrightarrow>
           (rest = [] \<or> \<not> is_word U (hd rest))"
  using assms by (auto simp: at_boundary_iff simp del: at_boundary.simps)

lemma token_letters:
  "ascii ''work'' \<noteq> []" "is_word U (hd (ascii ''work''))" "is_word U (last (ascii ''work''))"
  "ascii ''do'' \<noteq> []" "is_word U (hd (ascii ''do''))" "is_word U (last (ascii ''do''))"
  "ascii ''you'' \<noteq> []" "is_word U (hd (ascii ''you''))" "is_word U (last (ascii ''you''))"
  by (simp_all add: ascii_def is_word_def isalnum_def)

lemma ends_SeqI:
  "x \<in> set (ends U a c) \<Longrightarrow> ends U b x \<noteq> [] \<Longrightarrow> ends U (Seq a b) c \<noteq> []"
  unfolding ends_Seq_nonempty by blast

lemma ends_Seq_BoundaryI:
  assumes "at_boundary U c" and "ends U b c \<noteq> []"
  shows "ends U (Seq Boundary b) c \<noteq> []"
proof (rule ends_SeqI)
  show "c \<in> set (ends U Boundary c)"
    using assms(1) by (simp only: ends_Boundary_set simp_thms)
  show "ends U b c \<noteq> []" by fact
qed

lemma ends_work_do_you:
  "ends U work_do_you (prev_after None pre, rest) \<noteq> [] \<longleftrightarrow>
     (\<exists>tok mid post. rest = tok @ mid @ ascii ''you'' @ post \<and>
        token_then_you U pre tok mid post \<and> 10 \<notin> set mid)"
  (is "?L \<longleftrightarrow> ?R")
proof
  assume ?L
  then have "at_boundary U (prev_after None pre, rest) \<and>
     (\<exists>c1. (c1 \<in> set (ends U (Lit (ascii ''work'')) (prev_after None pre, rest)) \<or>
            c1 \<in> set (ends U (Lit (ascii ''do'')) (prev_after None pre, rest))) \<and>
        at_boundary U c1 \<and>
        (\<exists>c2. c2 \<in> set (ends U DotStar c1) \<and> at_boundary U c2 \<and>
           (\<exists>c3. c3 \<in> set (ends U (Lit (ascii ''you'')) c2) \<and> at_boundary U c3)))"
    unfolding work_do_you_def
    apply (simp only: ends_Seq_nonempty ends_Boundary_set ends_Boundary_nonempty ends.simps(4)
        set_append Un_iff Bex_def)
    apply blast
    done
  then obtain c1 c2 c3 where b0: "at_boundary U (prev_after None pre, rest)"
    and c1: "c1 \<in> set (ends U (Lit (ascii ''work'')) (prev_after None pre, rest)) \<or>
             c1 \<in> set (ends U (Lit (ascii ''do'')) (prev_after None pre, rest))"
    and b1: "at_boundary U c1"
    and c2: "c2 \<in> set (ends U DotStar c1)"
    and b2: "at_boundary U c2"
    and c3: "c3 \<in> set (ends U (Lit (ascii ''you'')) c2)"
    and b3: "at_boundary U c3"
    by blast
  from c1 obtain tok rest1 where tok: "tok = ascii ''work'' \<or> tok = ascii ''do''"
    and r1: "rest = tok @ rest1" and c1': "c1 = (prev_after None (pre @ tok), rest1)"
    unfolding ends_Lit_set prev_after_append by blast
  from c2 have "c2 \<in> set (ends U DotStar (prev_after None (pre @ tok), rest1))"
    by (simp only: c1')
  then obtain mid rest2 where r2: "rest1 = mid @ rest2" and nl: "10 \<notin> set mid"
    and c2': "c2 = (prev_after None (pre @ tok @ mid), rest2)"
    unfolding ends_DotStar_set prev_after_append append_assoc by blast
  from c3 have "c3 \<in> set (ends U (Lit (ascii ''you'')) (prev_after None (pre @ tok @ mid), rest2))"
    by (simp only: c2')
  then obtain post where r3: "rest2 = ascii ''you'' @ post"
    and c3': "c3 = (prev_after None ((pre @ tok @ mid) @ ascii ''you''), post)"
    unfolding ends_Lit_set prev_after_append by blast
  from tok have t: "tok \<noteq> []" "is_word U (hd tok)" "is_word U (last tok)"
    using token_letters by auto
  from b0 r1 have w0: "pre = [] \<or> \<not> is_word U (last pre)"
    by (simp add: boundary_before_token [OF t(1,2)] del: at_boundary.simps)
  from b1 c1' have w1: "rest1 = [] \<or> \<not> is_word U (hd rest1)"
    by (simp add: boundary_after_token [OF t(1,3)] del: at_boundary.simps)
  from b2 c2' r3 have w2: "pre @ tok @ mid = [] \<or> \<not> is_word U (last (pre @ tok @ mid))"
    by (simp add: boundary_before_token [OF token_letters(7,8)] del: at_boundary.simps)
  from b3 c3' have w3: "post = [] \<or> \<not> is_word U (hd post)"
    by (simp only: boundary_after_token [OF token_letters(7,9)])
  have "rest = tok @ mid @ ascii ''you'' @ post"
    using r1 r2 r3 by simp
  moreover have "token_then_you U pre tok mid post"
    using tok w0 w1 w2 w3 r2 r3 by (simp add: token_then_you_def word_token_def)
  ultimately show ?R using nl by blast
next
  assume ?R
  then obtain tok mid post where r: "rest = tok @ mid @ ascii ''you'' @ post"
    and tt: "token_then_you U pre tok mid post" and nl: "10 \<notin> set mid"
    by blast
  from tt have tok: "tok = ascii ''work'' \<or> tok = ascii ''do''"
    and w0: "pre = [] \<or> \<not> is_word U (last pre)"
    and w1: "mid @ ascii ''you'' @ post = [] \<or> \<not> is_word U (hd (mid @ ascii ''you'' @ post))"
    and w2: "pre @ tok @ mid = [] \<or> \<not> is_word U (last (pre @ tok @ mid))"
    and w3: "post = [] \<or> \<not> is_word U (hd post)"
    by (simp_all add: token_then_you_def word_token_def)
  from tok have t: "tok \<noteq> []" "is_word U (hd tok)" "is_word U (last tok)"
    using token_letters by auto
  let ?c0 = "(prev_after None pre, rest)"
  let ?c1 = "(prev_after None (pre @ tok), mid @ ascii ''you'' @ post)"
  let ?c2 = "(prev_after None (pre @ tok @ mid), ascii ''you'' @ post)"
  let ?c3 = "(prev_after None ((pre @ tok @ mid) @ ascii ''you''), post)"
  have b0: "at_boundary U ?c0"
    unfolding r using w0 by (simp only: boundary_before_token [OF t(1,2)])
  have c1: "?c1 \<in> set (ends U (Alt (Lit (ascii ''work'')) (Lit (ascii ''do''))) ?c0)"
    unfolding r ends.simps(4) set_append Un_iff ends_Lit_set prev_after_append
    using tok by blast
  have b1: "at_boundary U ?c1"
    using w1 by (simp only: boundary_after_token [OF t(1,3)])
  have c2: "?c2 \<in> set (ends U DotStar ?c1)"
  proof -
    have "mid @ ascii ''you'' @ post = mid @ (ascii ''you'' @ post) \<and> 10 \<notin> set mid \<and>
          ?c2 = (prev_after (prev_after None (pre @ tok)) mid, ascii ''you'' @ post)"
      using nl by (simp only: prev_after_append append_assoc simp_thms)
    then show ?thesis
      unfolding ends_DotStar_set by blast
  qed
  have b2: "at_boundary U ?c2"
    using w2 by (simp only: boundary_before_token [OF token_letters(7,8)])
  have c3: "?c3 \<in> set (ends U (Lit (ascii ''you'')) ?c2)"
    unfolding ends_Lit_set prev_after_append by blast
  have b3: "at_boundary U ?c3"
    using w3 by (simp only: boundary_after_token [OF token_letters(7,9)])
  have e3: "ends U Boundary ?c3 \<noteq> []"
    using b3 by (simp only: ends_Boundary_nonempty)
  have e2: "ends U (Seq (Lit (ascii ''you'')) Boundary) ?c2 \<noteq> []"
    using c3 e3 by (rule ends_SeqI)
  have e2': "ends U (Seq Boundary (Seq (Lit (ascii ''you'')) Boundary)) ?c2 \<noteq> []"
    using b2 e2 by (rule ends_Seq_BoundaryI)
  have e1: "ends U (Seq DotStar (Seq Boundary (Seq (Lit (ascii ''you'')) Boundary))) ?c1 \<noteq> []"
    using c2 e2' by (rule ends_SeqI)
  have e1': "ends U (Seq Boundary (Seq DotStar (Seq Boundary (Seq (Lit (ascii ''you'')) Boundary))))
               ?c1 \<noteq> []"
    using b1 e1 by (rule ends_Seq_BoundaryI)
  have e0: "ends U (Seq (Alt (Lit (ascii ''work'')) (Lit (ascii ''do'')))
              (Seq Boundary (Seq DotStar (Seq Boundary (Seq (Lit (ascii ''you'')) Boundary)))))
               ?c0 \<noteq> []"
    using c1 e1' by (rule ends_SeqI)
  show ?L
    unfolding work_do_you_def using b0 e0 by (rule ends_Seq_BoundaryI)
qed

section \<open>The first regular expression\<close>

lemma re_search_work_do_you:
  "re_search U work_do_you s \<longleftrightarrow>
     (\<exists>pre tok mid post. s = pre @ tok @ mid @ ascii ''you'' @ post \<and>
        token_then_you U pre tok mid post \<and> 10 \<notin> set mid)"
proof -
  have "re_search U work_do_you s \<longleftrightarrow>
          (\<exists>pre rest. s = pre @ rest \<and> ends U work_do_you (prev_after None pre, rest) \<noteq> [])"
    by (simp only: re_search_def search_from_iff)
  also have "\<dots> \<longleftrightarrow> (\<exists>pre rest. s = pre @ rest \<and>
      (\<exists>tok mid post. rest = tok @ mid @ ascii ''you'' @ post \<and>
        token_then_you U pre tok mid post \<and> 10 \<notin> set mid))"
    by (simp only: ends_work_do_you)
  also have "\<dots> \<longleftrightarrow> (\<exists>pre tok mid post. s = pre @ tok @ mid @ ascii ''you'' @ post \<and>
        token_then_you U pre tok mid post \<and> 10 \<notin> set mid)"
    by blast
  finally show ?thesis .
qed

lemma what_work_do_you_do:
  "str_lower U (ascii ''what work do you do'') =
     [119, 104, 97, 116, 32, 119, 111, 114, 107, 32, 100, 111, 32, 121, 111, 117, 32, 100, 111]"
  by (simp add: str_lower_def is_ascii_def ascii_def ascii_lower_def)

lemma you_do_work_sometimes:
  "str_lower U (ascii ''you do work sometimes'') =
     [121, 111, 117, 32, 100, 111, 32, 119, 111, 114, 107, 32, 115, 111, 109, 101, 116, 105,
      109, 101, 115]"
  by (simp add: str_lower_def is_ascii_def ascii_def ascii_lower_def)

text \<open>
  C4, as amended.  The first regular expression matches a text exactly when a word token
  "work" or "do" occurs before a later word token "you" with no newline between the two
  tokens.  It matches "what work do you do", whose answer is therefore the fixed response
  of the regular expressions, and it does not match "you do work sometimes".
\<close>

theorem regex_rule_1:
  "(re_search U work_do_you s \<longleftrightarrow>
      (\<exists>pre tok mid post. s = pre @ tok @ mid @ ascii ''you'' @ post \<and>
         token_then_you U pre tok mid post \<and> 10 \<notin> set mid)) \<and>
   re_search U work_do_you (str_lower U (ascii ''what work do you do'')) \<and>
   get_bot_response U d1 d2 (ascii ''what work do you do'') = regex_response \<and>
   \<not> re_search U work_do_you (str_lower U (ascii ''you do work sometimes''))"
proof (intro conjI)
  show "re_search U work_do_you s \<longleftrightarrow>
      (\<exists>pre tok mid post. s = pre @ tok @ mid @ ascii ''you'' @ post \<and>
         token_then_you U pre tok mid post \<and> 10 \<notin> set mid)"
    by (rule re_search_work_do_you)
  show m: "re_search U work_do_you (str_lower U (ascii ''what work do you do''))"
    unfolding what_work_do_you_do
    by (simp add: re_search_def work_do_you_def ascii_def is_word_def isalnum_def)
  then show "get_bot_response U d1 d2 (ascii ''what work do you do'') = regex_response"
    by (simp add: get_bot_response_def Let_def)
  show "\<not> re_search U work_do_you (str_lower U (ascii ''you do work sometimes''))"
    unfolding you_do_work_sometimes
    by (simp add: re_search_def work_do_you_def ascii_def is_word_def isalnum_def)
qed

theorem regex_rule_1_witness:
  "token_then_you sample_runtime (ascii ''i '') (ascii ''do'') (ascii '' like '') (ascii ''!'') \<and>
   re_search sample_runtime work_do_you (ascii ''i do like you!'')"
proof -
  have t: "token_then_you sample_runtime (ascii ''i '') (ascii ''do'') (ascii '' like '')
             (ascii ''!'')"
    by (simp add: token_then_you_def word_token_def ascii_def is_word_def isalnum_def)
  have d: "ascii ''i do like you!'' =
             ascii ''i '' @ ascii ''do'' @ ascii '' like '' @ ascii ''you'' @ ascii ''!''"
    by (simp add: ascii_def)
  have n: "10 \<notin> set (ascii '' like '')"
    by (simp add: ascii_def)
  from t d n have "\<exists>pre tok mid post.
      ascii ''i do like you!'' = pre @ tok @ mid @ ascii ''you'' @ post \<and>
      token_then_you sample_runtime pre tok mid post \<and> 10 \<notin> set mid"
    by blast
  with regex_rule_1 [of sample_runtime "ascii ''i do like you!''"] t show ?thesis
    by blast
qed

text \<open>
  Without the condition on the newline the statement fails, since \<open>.\<close> does not match
  a newline: in the two-line message "do", "you" the word token "do" occurs before the
  word token "you", and the expression does not match; the answer is the default one.
\<close>

theorem regex_rule_1_stops_at_newline:
  "spec_rule_1 sample_runtime (ascii ''do'' @ [10] @ ascii ''you'') \<and>
   str_lower sample_runtime (ascii ''do'' @ [10] @ ascii ''you'') =
     ascii ''do'' @ [10] @ ascii ''you'' \<and>
   \<not> re_search sample_runtime work_do_you (ascii ''do'' @ [10] @ ascii ''you'') \<and>
   get_bot_response sample_runtime sample_date sample_date (ascii ''do'' @ [10] @ ascii ''you'')
     = default_response"
proof -
  let ?s = "ascii ''do'' @ [10] @ ascii ''you''"
  have t: "token_then_you sample_runtime [] (ascii ''do'') [10] []"
    by (simp add: token_then_you_def word_token_def ascii_def is_word_def isalnum_def)
  have "?s = [] @ ascii ''do'' @ [10] @ ascii ''you'' @ []" by simp
  with t have 1: "spec_rule_1 sample_runtime ?s"
    unfolding spec_rule_1_def by blast
  have s: "?s = [100, 111, 10, 121, 111, 117]"
    by (simp add: ascii_def)
  have m: "str_lower sample_runtime ?s = ?s"
    unfolding s by (simp add: str_lower_def is_ascii_def ascii_lower_def)
  have 2: "\<not> re_search sample_runtime work_do_you ?s"
    unfolding s
    by (simp add: re_search_def work_do_you_def ascii_def is_word_def isalnum_def)
  have 3: "\<not> re_search sample_runtime (Lit kay_kam_karto) ?s"
    unfolding s by (simp add: re_search_def kay_kam_karto_def)
  have 4: "scan_responses (RESPONSES sample_date sample_date) ?s = None"
    unfolding s by (simp add: RESPONSES_def any_keyword_in_def keyword_defs ascii_def)
  have "get_bot_response sample_runtime sample_date sample_date ?s = default_response"
    unfolding get_bot_response_def Let_def m using 2 3 4 by simp
  with 1 2 m show ?thesis by simp
qed

end
